theory Spec2Isabelle
  imports Complex_Main "HOL-Library.Word" "HOL-Library.Log_Nat"
begin

section \<open>Frame.py: text-block rectangles of a scanned page\<close>

text \<open>
  A shallow embedding of \<^verbatim>\<open>src/scr/Frame.py\<close>. Python exceptions are values of
  \<open>error\<close>; a function that may raise returns \<open>error + 'a\<close> with \<open>Inl\<close> for the
  exception, and a method that mutates its object returns the exception it raised, if
  any, with the object as the call leaves it. Python integers are \<open>int\<close>; the entries
  of NumPy's integer arrays are machine words, which wrap around; NumPy's float64
  values are the reals that binary64 represents, with the infinities and NaN, and every
  float64 operation rounds its exact result to the nearest of them.
\<close>

subsection \<open>Exceptions\<close>

datatype error = AssertionError | TypeError | IndexError | ValueError | Cv2Error

subsection \<open>Odd kernel sizes\<close>

text \<open>
  \<^verbatim>\<open>__to_odd\<close>: \<^verbatim>\<open>y = ceil(x); return y if y % 2 == 1 else y - 1\<close>.
  Python's \<^verbatim>\<open>%\<close> on integers is the floored remainder, as \<open>mod\<close> on \<open>int\<close>.
\<close>

definition to_odd :: "real \<Rightarrow> int" where
  "to_odd x = (let y = \<lceil>x\<rceil> in if y mod 2 = 1 then y else y - 1)"

definition blur_rate :: real where
  "blur_rate = 3 / 2"

definition offset_rate :: real where
  "offset_rate = 3"

text \<open>
  \<^verbatim>\<open>rate * w // 100\<close> is a float floor division: the product first, then the
  floor of the quotient, still a float.
\<close>

definition size_formula :: "real \<Rightarrow> int \<Rightarrow> real" where
  "size_formula rate w = of_int \<lfloor>rate * of_int w / 100\<rfloor>"

text \<open>
  \<^verbatim>\<open>__get_effective_zone\<close>: \<^verbatim>\<open>gauss_x = to_odd(max(offset_percent * w // 100, 1))\<close>,
  and the kernel handed to \<^verbatim>\<open>cv2.GaussianBlur\<close> is \<^verbatim>\<open>to_odd(gauss_x)\<close>.
\<close>

definition effective_zone_gauss :: "real \<Rightarrow> int \<Rightarrow> int" where
  "effective_zone_gauss offset_percent w = to_odd (max (size_formula offset_percent w) 1)"

definition effective_zone_ksize :: "real \<Rightarrow> int \<Rightarrow> int" where
  "effective_zone_ksize offset_percent w = to_odd (of_int (effective_zone_gauss offset_percent w))"

text \<open>
  \<^verbatim>\<open>__generate_frame\<close>: the kernel is \<^verbatim>\<open>to_odd(blur_rate * w // 100)\<close>, with no
  lower bound on the argument.
\<close>

definition generate_frame_ksize :: "real \<Rightarrow> int \<Rightarrow> int" where
  "generate_frame_ksize rate w = to_odd (size_formula rate w)"

subsection \<open>The clustering helper\<close>

text \<open>
  An array is its shape and its elements in row-major order; \<^verbatim>\<open>img.size\<close> is the
  product of the shape, and \<^verbatim>\<open>img.reshape(-1, 1)\<close> is the same elements as one
  column of \<^verbatim>\<open>img.size\<close> rows. The elements are finite numbers: the helper is
  called on averages of 8-bit samples.
\<close>

record ndarray =
  shape :: "nat list"
  elems :: "real list"

definition np_size :: "ndarray \<Rightarrow> nat" where
  "np_size a = prod_list (shape a)"

definition reshape_column :: "ndarray \<Rightarrow> ndarray" where
  "reshape_column a = a\<lparr>shape := [np_size a, 1]\<rparr>"

text \<open>
  \<^verbatim>\<open>KMeans(n_clusters=n_clusters)\<close>, \<^verbatim>\<open>model.fit(X)\<close>, then
  \<^verbatim>\<open>model.predict(X)\<close> and \<^verbatim>\<open>model.cluster_centers_\<close>. scikit-learn's
  \<^verbatim>\<open>fit\<close> raises \<^verbatim>\<open>ValueError\<close> on an array that is not two-dimensional, on a
  number of clusters below 1, and on fewer samples (rows) than clusters; otherwise it
  returns, and the labels and centres it finds are those of the parameter
  \<open>clustering\<close> (the search itself is randomised).
\<close>

definition KMeans_fit_predict ::
  "(real list \<Rightarrow> nat \<Rightarrow> 'r) \<Rightarrow> nat \<Rightarrow> ndarray \<Rightarrow> error + 'r" where
  "KMeans_fit_predict clustering n_clusters X =
     (case shape X of
        [n_samples, n_features] \<Rightarrow>
          if n_clusters = 0 \<or> n_samples < n_clusters then Inl ValueError
          else Inr (clustering (elems X) n_clusters)
      | _ \<Rightarrow> Inl ValueError)"

text \<open>
  \<^verbatim>\<open>generate_row_label_Kmeans(img, n_clusters)\<close>: the guard
  \<^verbatim>\<open>img.shape[0] != img.size\<close>, then the model on the reshaped input.
  \<^verbatim>\<open>img.shape[0]\<close> of a zero-dimensional array raises \<^verbatim>\<open>IndexError\<close>.
\<close>

definition generate_row_label_Kmeans ::
  "(real list \<Rightarrow> nat \<Rightarrow> 'r) \<Rightarrow> ndarray \<Rightarrow> nat \<Rightarrow> error + 'r" where
  "generate_row_label_Kmeans clustering a n_clusters =
     (case shape a of
        [] \<Rightarrow> Inl IndexError
      | d0 # _ \<Rightarrow>
          if d0 \<noteq> np_size a then Inl TypeError
          else KMeans_fit_predict clustering n_clusters (reshape_column a))"

subsection \<open>Images and their validation\<close>

text \<open>
  Of an input array the constructor's checks read the element type and the shape only.
\<close>

datatype dtype = UInt8 | Int8 | UInt16 | Int16 | Int32 | Int64 | Float32 | Float64 | Bool8

record image =
  img_dtype :: dtype
  img_shape :: "nat list"

text \<open>
  Modelled from the spec: \<^verbatim>\<open>Pixel_dtype\<close> of \<^verbatim>\<open>Type_Alias.py\<close>, which is not among
  the sources; the spec's images hold unsigned 8-bit samples.
\<close>

definition Pixel_dtype :: dtype where
  "Pixel_dtype = UInt8"

text \<open>\<^verbatim>\<open>np.issubdtype\<close> between two concrete element types holds when they are the same.\<close>

definition issubdtype :: "dtype \<Rightarrow> dtype \<Rightarrow> bool" where
  "issubdtype a b = (a = b)"

text \<open>
  \<^verbatim>\<open>__check_rgb_img\<close>: three assertions in the source's order, then \<^verbatim>\<open>return True\<close>.
  The first assertion, that the argument is an array, is the type \<open>image\<close>.
\<close>

definition check_rgb_img :: "image \<Rightarrow> error + bool" where
  "check_rgb_img im =
     (if \<not> issubdtype (img_dtype im) Pixel_dtype then Inl AssertionError
      else if length (img_shape im) \<noteq> 2 \<and> length (img_shape im) \<noteq> 3 then Inl AssertionError
      else if length (img_shape im) = 3 \<and> last (img_shape im) \<noteq> 3 then Inl AssertionError
      else Inr True)"

text \<open>
  \<^verbatim>\<open>cv2.cvtColor(img, cv2.COLOR_BGR2GRAY)\<close>: OpenCV accepts a source of 3 or 4
  channels for this conversion and raises \<^verbatim>\<open>cv2.error\<close> on any other, as it does
  on an image with no pixels; the result has the source's rows and columns and one
  channel.
\<close>

definition cvtColor_BGR2GRAY :: "image \<Rightarrow> error + image" where
  "cvtColor_BGR2GRAY im =
     (if length (img_shape im) = 3 \<and> (last (img_shape im) = 3 \<or> last (img_shape im) = 4) \<and>
         0 \<notin> set (img_shape im)
      then Inr (im\<lparr>img_shape := butlast (img_shape im)\<rparr>)
      else Inl Cv2Error)"

subsection \<open>Rectangles, contours and the rectangle set\<close>

text \<open>
  Modelled from the spec: the class \<^verbatim>\<open>Rect\<close> of \<^verbatim>\<open>Rect.py\<close>, which is not among
  the sources. The spec's Rectangle has four integer edges.
\<close>

record Rect =
  top_edge :: int
  bottom_edge :: int
  left_edge :: int
  right_edge :: int

text \<open>
  Modelled from the spec: \<^verbatim>\<open>Rect.height\<close> (\<^verbatim>\<open>Rect.py\<close> is absent), the distance
  between the bottom and the top edge.
\<close>

definition rect_height :: "Rect \<Rightarrow> int" where
  "rect_height r = bottom_edge r - top_edge r"

text \<open>
  Modelled from the spec: \<^verbatim>\<open>Rect.expand_above\<close> and \<^verbatim>\<open>Rect.expand_below\<close>
  (\<^verbatim>\<open>Rect.py\<close> is absent), which shift the top or the bottom edge outwards by a pixel
  delta.
\<close>

definition expand_above :: "int \<Rightarrow> Rect \<Rightarrow> Rect" where
  "expand_above d r = r\<lparr>top_edge := top_edge r - d\<rparr>"

definition expand_below :: "int \<Rightarrow> Rect \<Rightarrow> Rect" where
  "expand_below d r = r\<lparr>bottom_edge := bottom_edge r + d\<rparr>"

text \<open>
  Modelled from the spec: \<^verbatim>\<open>Point_dtype\<close> of \<^verbatim>\<open>Type_Alias.py\<close>, which is not among
  the sources: the type of a contour's coordinates, which OpenCV holds as signed 32-bit
  integers. A value of it is a word of 32 bits, read by \<open>sint\<close>; its arithmetic wraps
  around. NumPy's default integer type, of an array made from Python integers, has 64
  bits.
\<close>

type_synonym int32 = "32 word"

type_synonym int64 = "64 word"

text \<open>A contour is a sequence of points \<open>(x, y)\<close>.\<close>

type_synonym Point = "int32 \<times> int32"

type_synonym Contour = "Point list"

text \<open>
  A \<^verbatim>\<open>Frame\<close> is its own rectangle set (it inherits \<^verbatim>\<open>Rects\<close>).
  Modelled from the spec: the rectangle set of \<^verbatim>\<open>Rect.py\<close> (absent) is a sequence
  of rectangles (\<open>rects\<close>: \<^verbatim>\<open>len(self)\<close>, \<^verbatim>\<open>self[i]\<close>) paired with their
  originating contours (\<open>contours\<close>: \<^verbatim>\<open>self.get_contours()\<close>), which the expansion
  of a rectangle leaves as they were.
\<close>

record Frame =
  img :: image
  gray_img :: image
  height :: nat
  width :: nat
  rects :: "Rect list"
  contours :: "Contour list"

definition get_contours :: "Frame \<Rightarrow> Contour list" where
  "get_contours f = contours f"

subsection \<open>NumPy operations used by the expander\<close>

text \<open>Indexing by an integer: a negative index counts from the end, out of range raises.\<close>

definition np_get :: "'a list \<Rightarrow> int \<Rightarrow> error + 'a" where
  "np_get xs k =
     (if 0 \<le> k \<and> k < int (length xs) then Inr (xs ! nat k)
      else if k < 0 \<and> - int (length xs) \<le> k then Inr (xs ! nat (int (length xs) + k))
      else Inl IndexError)"

text \<open>\<^verbatim>\<open>np.roll(a, -1)\<close>: every element moves one place to the front, the first to the end.\<close>

definition np_roll_back :: "'a list \<Rightarrow> 'a list" where
  "np_roll_back xs = (case xs of [] \<Rightarrow> [] | x # r \<Rightarrow> r @ [x])"

text \<open>\<^verbatim>\<open>a.flatten()\<close> of an array of points, and the slice \<^verbatim>\<open>[1::2]\<close>.\<close>

definition flatten_points :: "Point list \<Rightarrow> int32 list" where
  "flatten_points ps = concat (map (\<lambda>p. [fst p, snd p]) ps)"

fun slice_odd :: "'a list \<Rightarrow> 'a list" where
  "slice_odd (x # y # r) = y # slice_odd r"
| "slice_odd [x] = []"
| "slice_odd [] = []"

subsection \<open>float64\<close>

text \<open>
  A finite float64 is a real \<open>m * 2\<^sup>e\<close> with an integer \<open>m\<close> of at most 53 bits. An
  operation on finite values returns the exact result rounded to the nearest such
  number, a tie going to the even \<open>m\<close>: for \<open>2\<^sup>e \<le> \<bar>x\<bar> < 2\<^bsup>e+1\<^esup>\<close> the neighbours
  of \<open>x\<close> are \<open>2\<^bsup>e-52\<^esup>\<close> apart. The exponent's range (overflow to infinity, gradual
  underflow) is left out: the values of \<^verbatim>\<open>expand_rects\<close> are quotients and products
  of integers of at most 64 bits, between \<open>2\<^bsup>-64\<^esup>\<close> and \<open>2\<^bsup>95\<^esup>\<close> in magnitude.
\<close>

definition round_half_even :: "real \<Rightarrow> int" where
  "round_half_even x =
     (let n = \<lfloor>x\<rfloor>; d = x - of_int n
      in if d < 1 / 2 then n else if 1 / 2 < d then n + 1 else if even n then n else n + 1)"

definition pow2 :: "int \<Rightarrow> real" where
  "pow2 e = (if 0 \<le> e then 2 ^ nat e else 1 / 2 ^ nat (- e))"

text \<open>The exponent \<open>e\<close> with \<open>2\<^sup>e \<le> x < 2\<^bsup>e+1\<^esup>\<close> of a positive \<open>x\<close>.\<close>

definition ilog2 :: "real \<Rightarrow> int" where
  "ilog2 x =
     (if 1 \<le> x then int (floorlog 2 (nat \<lfloor>x\<rfloor>)) - 1
      else - int (floorlog 2 (nat (\<lceil>1 / x\<rceil> - 1))))"

definition round_float64 :: "real \<Rightarrow> real" where
  "round_float64 x =
     (if x = 0 then 0
      else (let u = pow2 (ilog2 \<bar>x\<bar> - 52) in u * of_int (round_half_even (x / u))))"

datatype float64 = Finite real | PInf | NInf | NaN

text \<open>The conversion of an integer array to float64, as NumPy does before a division.\<close>

definition float64_of_int :: "int \<Rightarrow> float64" where
  "float64_of_int k = Finite (round_float64 (of_int k))"

text \<open>
  Division and product. A finite non-zero value over zero is an infinity, zero over
  zero is NaN (NumPy warns and goes on); an infinity times zero is NaN.
\<close>

fun float64_div :: "float64 \<Rightarrow> float64 \<Rightarrow> float64" where
  "float64_div (Finite x) (Finite y) =
     (if y = 0 then (if x = 0 then NaN else if 0 < x then PInf else NInf)
      else Finite (round_float64 (x / y)))"
| "float64_div (Finite x) PInf = Finite 0"
| "float64_div (Finite x) NInf = Finite 0"
| "float64_div PInf (Finite y) = (if 0 \<le> y then PInf else NInf)"
| "float64_div NInf (Finite y) = (if 0 \<le> y then NInf else PInf)"
| "float64_div _ _ = NaN"

fun float64_mul :: "float64 \<Rightarrow> float64 \<Rightarrow> float64" where
  "float64_mul (Finite x) (Finite y) = Finite (round_float64 (x * y))"
| "float64_mul PInf (Finite y) = (if y = 0 then NaN else if 0 < y then PInf else NInf)"
| "float64_mul NInf (Finite y) = (if y = 0 then NaN else if 0 < y then NInf else PInf)"
| "float64_mul (Finite x) PInf = (if x = 0 then NaN else if 0 < x then PInf else NInf)"
| "float64_mul (Finite x) NInf = (if x = 0 then NaN else if 0 < x then NInf else PInf)"
| "float64_mul PInf PInf = PInf"
| "float64_mul NInf NInf = PInf"
| "float64_mul PInf NInf = NInf"
| "float64_mul NInf PInf = NInf"
| "float64_mul _ _ = NaN"

text \<open>\<^verbatim>\<open>astype\<close> from float to an integer type drops the fraction (toward zero).\<close>

definition astype_int :: "real \<Rightarrow> int" where
  "astype_int x = (if 0 \<le> x then \<lfloor>x\<rfloor> else \<lceil>x\<rceil>)"

text \<open>
  \<^verbatim>\<open>astype(Point_dtype)\<close> of a float64 array raises nothing. What the cast gives for
  NaN, for an infinity and for a value outside the 32-bit range is the processor's: on
  x86-64 the conversion instruction returns \<open>- 2\<^sup>3\<^sup>1\<close> for each of them.
\<close>

definition astype_int32 :: "float64 \<Rightarrow> int32" where
  "astype_int32 v =
     (case v of
        Finite x \<Rightarrow>
          if - (2 ^ 31) \<le> astype_int x \<and> astype_int x < 2 ^ 31 then word_of_int (astype_int x)
          else word_of_int (- (2 ^ 31))
      | _ \<Rightarrow> word_of_int (- (2 ^ 31)))"

subsection \<open>The rectangle expander\<close>

text \<open>
  \<^verbatim>\<open>expand_rects\<close>, lines 159 to 166. The heights are Python integers, and the array
  made of them has 64-bit entries, so the squares and their sums wrap around at 64
  bits (a height that does not fit 64 bits itself would make NumPy choose another
  element type; the statements below are about heights that do). The division
  converts both arrays to float64 and divides entry by entry:
  \<^verbatim>\<open>height_sq[:-1] / denom[:-1]\<close>.
\<close>

definition contours_height :: "Rect list \<Rightarrow> int64 list" where
  "contours_height rs = map (\<lambda>r. word_of_int (rect_height r)) rs"

definition height_sq :: "Rect list \<Rightarrow> int64 list" where
  "height_sq rs = map (\<lambda>h. h ^ 2) (contours_height rs)"

definition denom :: "Rect list \<Rightarrow> int64 list" where
  "denom rs = map2 (+) (np_roll_back (height_sq rs)) (height_sq rs)"

definition ratio_for_lower :: "Rect list \<Rightarrow> float64 list" where
  "ratio_for_lower rs =
     map2 (\<lambda>a b. float64_div (float64_of_int (sint a)) (float64_of_int (sint b)))
       (butlast (height_sq rs)) (butlast (denom rs))"

text \<open>
  Lines 168 to 172: \<^verbatim>\<open>contours[i + 1][0] - contours[i][1]\<close> for \<^verbatim>\<open>i\<close> in
  \<^verbatim>\<open>range(0, Len - 1)\<close>, a difference of two points in 32-bit arithmetic; then the
  flattened array's odd positions, the differences in \<open>y\<close>.
\<close>

definition point_diff :: "Contour list \<Rightarrow> nat \<Rightarrow> error + Point" where
  "point_diff cs i =
     (case np_get cs (int i + 1) of Inl e \<Rightarrow> Inl e | Inr c1 \<Rightarrow>
      (case np_get c1 0 of Inl e \<Rightarrow> Inl e | Inr p \<Rightarrow>
       (case np_get cs (int i) of Inl e \<Rightarrow> Inl e | Inr c0 \<Rightarrow>
        (case np_get c0 1 of Inl e \<Rightarrow> Inl e | Inr q \<Rightarrow>
           Inr (fst p - fst q, snd p - snd q)))))"

fun point_diffs :: "Contour list \<Rightarrow> nat list \<Rightarrow> error + Point list" where
  "point_diffs cs [] = Inr []"
| "point_diffs cs (i # js) =
     (case point_diff cs i of Inl e \<Rightarrow> Inl e | Inr d \<Rightarrow>
      (case point_diffs cs js of Inl e \<Rightarrow> Inl e | Inr ds \<Rightarrow> Inr (d # ds)))"

definition dist_array :: "Contour list \<Rightarrow> nat \<Rightarrow> error + int32 list" where
  "dist_array cs Len =
     (case point_diffs cs [0..<Len - 1] of Inl e \<Rightarrow> Inl e
      | Inr ds \<Rightarrow> Inr (slice_odd (flatten_points ds)))"

text \<open>
  Lines 174 to 177: the two increments of every adjacent pair. The product
  \<^verbatim>\<open>ratio_for_lower * dist\<close> is a float64 product, cast to \<^verbatim>\<open>Point_dtype\<close>; the
  difference \<^verbatim>\<open>dist - plus_for_lower_rect\<close> is taken in 32-bit arithmetic.
\<close>

definition plus_for_lower_rect :: "float64 list \<Rightarrow> int32 list \<Rightarrow> int32 list" where
  "plus_for_lower_rect ratio ds =
     map2 (\<lambda>r d. astype_int32 (float64_mul r (float64_of_int (sint d)))) ratio ds"

definition plus_for_upper_rect :: "int32 list \<Rightarrow> int32 list \<Rightarrow> int32 list" where
  "plus_for_upper_rect ds pl = map2 (-) ds pl"

text \<open>
  The loop of lines 178 to 188 mutates the rectangles in place, so a statement takes the
  rectangles and returns them with the exception it raised, if any; an exception ends
  the run and leaves the rectangles as they are at that moment.
\<close>

definition and_then ::
  "error option \<times> 's \<Rightarrow> ('s \<Rightarrow> error option \<times> 's) \<Rightarrow> error option \<times> 's" where
  "and_then m k = (case m of (None, s) \<Rightarrow> k s | (Some e, s) \<Rightarrow> (Some e, s))"

text \<open>
  The statement \<^verbatim>\<open>self[i].method(arr[j])\<close>: the argument is read first, which may
  raise, then rectangle \<open>i\<close> is changed.
\<close>

definition call_expand ::
  "(int \<Rightarrow> Rect \<Rightarrow> Rect) \<Rightarrow> nat \<Rightarrow> int list \<Rightarrow> int \<Rightarrow> Rect list \<Rightarrow> error option \<times> Rect list" where
  "call_expand method i arr j rs =
     (case np_get arr j of
        Inl e \<Rightarrow> (Some e, rs)
      | Inr d \<Rightarrow> (None, rs[i := method d (rs ! i)]))"

definition expand_step ::
  "int \<Rightarrow> int list \<Rightarrow> int list \<Rightarrow> nat \<Rightarrow> Rect list \<Rightarrow> error option \<times> Rect list" where
  "expand_step Len pu pl i rs =
     and_then
       (and_then
          (if int i < Len - 1
           then and_then (call_expand expand_below i pu (int i) rs)
                         (call_expand expand_above (i + 1) pl (int i))
           else (None, rs))
          (\<lambda>s. if i = 0 then call_expand expand_above i pu (int i) s else (None, s)))
       (\<lambda>s. if int i = Len - 1 then call_expand expand_below i pl (int i - 1) s else (None, s))"

fun expand_loop ::
  "int \<Rightarrow> int list \<Rightarrow> int list \<Rightarrow> nat list \<Rightarrow> Rect list \<Rightarrow> error option \<times> Rect list" where
  "expand_loop Len pu pl [] rs = (None, rs)"
| "expand_loop Len pu pl (i # js) rs =
     and_then (expand_step Len pu pl i rs) (expand_loop Len pu pl js)"

text \<open>
  Lines 159 to 177 as a whole: the two arrays of increments, \<^verbatim>\<open>plus_for_upper_rect\<close>
  first, their entries read as the integers that the loop hands to the rectangles.
  Only the list comprehension of line 169 may raise; a share that is NaN raises
  nothing, and the cast gives it an entry like any other.
\<close>

definition increments :: "Frame \<Rightarrow> error + int list \<times> int list" where
  "increments f =
     (case dist_array (get_contours f) (length (rects f)) of
        Inl e \<Rightarrow> Inl e
      | Inr ds \<Rightarrow>
          (let pl = plus_for_lower_rect (ratio_for_lower (rects f)) ds;
               pu = plus_for_upper_rect ds pl
           in Inr (map sint pu, map sint pl)))"

text \<open>
  \<^verbatim>\<open>expand_rects\<close>: the outcome (\<open>None\<close> when the method returns) and the frame
  as the call leaves it.
\<close>

definition expand_rects :: "Frame \<Rightarrow> error option \<times> Frame" where
  "expand_rects f =
     (case increments f of
        Inl e \<Rightarrow> (Some e, f)
      | Inr (pu, pl) \<Rightarrow>
          (case expand_loop (int (length (rects f))) pu pl [0..<length (rects f)] (rects f) of
             (status, rs) \<Rightarrow> (status, f\<lparr>rects := rs\<rparr>)))"

text \<open>
  \<^verbatim>\<open>draw_contours\<close> hands \<^verbatim>\<open>self.get_contours()\<close> to \<^verbatim>\<open>cv2.drawContours\<close>;
  \<^verbatim>\<open>get_processed_img\<close> expands, then draws. The rendering is outside the model:
  the result is the outcome, the outlines handed to the renderer and the frame.
\<close>

definition draw_contours :: "Frame \<Rightarrow> Contour list" where
  "draw_contours f = get_contours f"

definition get_processed_img :: "Frame \<Rightarrow> error option \<times> Contour list \<times> Frame" where
  "get_processed_img f =
     (case expand_rects f of
        (Some e, f') \<Rightarrow> (Some e, [], f')
      | (None, f') \<Rightarrow> (None, draw_contours f', f'))"

subsection \<open>Constructing a frame\<close>

text \<open>
  Modelled from the spec: the constructor of the rectangle set and its \<^verbatim>\<open>sorted\<close>
  method (\<^verbatim>\<open>Rect.py\<close> is absent). A rectangle is the bounding box of its contour,
  and sorting orders the rectangles, each with its contour, by their top edge; entries
  with equal top edges keep their order of detection.
\<close>

definition bounding_rect :: "Contour \<Rightarrow> Rect" where
  "bounding_rect c =
     (case c of
        [] \<Rightarrow> \<lparr>top_edge = 0, bottom_edge = 0, left_edge = 0, right_edge = 0\<rparr>
      | p # ps \<Rightarrow>
          \<lparr>top_edge = fold min (map (\<lambda>q. sint (snd q)) ps) (sint (snd p)),
           bottom_edge = fold max (map (\<lambda>q. sint (snd q)) ps) (sint (snd p)),
           left_edge = fold min (map (\<lambda>q. sint (fst q)) ps) (sint (fst p)),
           right_edge = fold max (map (\<lambda>q. sint (fst q)) ps) (sint (fst p))\<rparr>)"

definition Rects_sorted :: "Contour list \<Rightarrow> Rect list \<times> Contour list" where
  "Rects_sorted con =
     (let entries = sort_key (\<lambda>e. top_edge (fst e)) (map (\<lambda>c. (bounding_rect c, c)) con)
      in (map fst entries, map snd entries))"

text \<open>
  \<^verbatim>\<open>np.array(con, dtype=Point_dtype)\<close> of line 150 makes one array of the contours,
  which NumPy refuses with \<^verbatim>\<open>ValueError\<close> when they do not all have the same number
  of points.
\<close>

definition np_array_of_contours :: "Contour list \<Rightarrow> error + Contour list" where
  "np_array_of_contours con =
     (if list_all (\<lambda>c. length c = length (hd con)) con then Inr con else Inl ValueError)"

text \<open>
  \<^verbatim>\<open>__find_rects\<close>: the contours that \<^verbatim>\<open>cv2.findContours\<close> finds in the mask of
  \<^verbatim>\<open>__generate_frame\<close> are the outcome of the parameter \<open>find_contours\<close> on the
  gray image (blurring, clustering and contour tracing are OpenCV's and scikit-learn's,
  and may raise); the rectangle set is built from their array and sorted.
\<close>

definition find_rects ::
  "(image \<Rightarrow> error + Contour list) \<Rightarrow> image \<Rightarrow> error + Rect list \<times> Contour list" where
  "find_rects find_contours gray =
     (case find_contours gray of
        Inl e \<Rightarrow> Inl e
      | Inr con \<Rightarrow>
          (case np_array_of_contours con of
             Inl e \<Rightarrow> Inl e
           | Inr arr \<Rightarrow> Inr (Rects_sorted arr)))"

text \<open>
  \<^verbatim>\<open>Frame.__init__\<close>: the assertion on the input, the conversion to gray, the
  height and width from the shape, then the rectangle set from \<^verbatim>\<open>__find_rects\<close>.
\<close>

definition Frame_init :: "(image \<Rightarrow> error + Contour list) \<Rightarrow> image \<Rightarrow> error + Frame" where
  "Frame_init find_contours im =
     (case check_rgb_img im of
        Inl e \<Rightarrow> Inl e
      | Inr ok \<Rightarrow>
          if \<not> ok then Inl AssertionError
          else
            (case cvtColor_BGR2GRAY im of
               Inl e \<Rightarrow> Inl e
             | Inr gray \<Rightarrow>
                 (case find_rects find_contours gray of
                    Inl e \<Rightarrow> Inl e
                  | Inr (rs, cs) \<Rightarrow>
                      Inr \<lparr>img = im, gray_img = gray,
                           height = img_shape im ! 0, width = img_shape im ! 1,
                           rects = rs, contours = cs\<rparr>)))"

subsection \<open>The loop of the expander in closed form\<close>

text \<open>
  What the loop adds above and below rectangle \<open>j\<close> of \<open>Len\<close> rectangles: the first
  rectangle grows upward by its own downward increment, the last one downward by its
  own upward increment.
\<close>

definition up_amount :: "int list \<Rightarrow> int list \<Rightarrow> nat \<Rightarrow> int" where
  "up_amount pu pl j = (if j = 0 then pu ! 0 else pl ! (j - 1))"

definition down_amount :: "nat \<Rightarrow> int list \<Rightarrow> int list \<Rightarrow> nat \<Rightarrow> int" where
  "down_amount Len pu pl j = (if j + 1 < Len then pu ! j else pl ! (Len - 2))"

definition grown :: "int \<Rightarrow> int \<Rightarrow> Rect \<Rightarrow> Rect" where
  "grown u d r = r\<lparr>top_edge := top_edge r - u, bottom_edge := bottom_edge r + d\<rparr>"

text \<open>The rectangles after the iterations \<open>0, ..., k - 1\<close> of the loop.\<close>

definition partial_rect ::
  "nat \<Rightarrow> int list \<Rightarrow> int list \<Rightarrow> Rect list \<Rightarrow> nat \<Rightarrow> nat \<Rightarrow> Rect" where
  "partial_rect Len pu pl rs k j =
     (if j < k then grown (up_amount pu pl j) (down_amount Len pu pl j) (rs ! j)
      else if j = k \<and> 0 < k then grown (pl ! (k - 1)) 0 (rs ! j)
      else rs ! j)"

definition partial_state :: "int list \<Rightarrow> int list \<Rightarrow> Rect list \<Rightarrow> nat \<Rightarrow> Rect list" where
  "partial_state pu pl rs k = map (partial_rect (length rs) pu pl rs k) [0..<length rs]"

text \<open>
  The vertical gap of the pair \<open>(i, i + 1)\<close> as line 170 reads it from the contours: the
  \<open>y\<close> of the first point of contour \<open>i + 1\<close> minus the \<open>y\<close> of the second point of
  contour \<open>i\<close>, in 32-bit arithmetic.
\<close>

definition dist_entry :: "Contour list \<Rightarrow> nat \<Rightarrow> int32" where
  "dist_entry cs i = snd (cs ! (i + 1) ! 0) - snd (cs ! i ! 1)"

definition gap :: "Contour list \<Rightarrow> nat \<Rightarrow> int" where
  "gap cs i = sint (dist_entry cs i)"

text \<open>An integer as a 32-bit array holds it.\<close>

definition wrap_int32 :: "int \<Rightarrow> int" where
  "wrap_int32 k = sint (word_of_int k :: int32)"

text \<open>The squares of a pair's heights and their sum, as the 64-bit arrays hold them.\<close>

definition wrap_int64 :: "int \<Rightarrow> int" where
  "wrap_int64 k = sint (word_of_int k :: int64)"

definition pair_height_sq :: "Rect list \<Rightarrow> nat \<Rightarrow> int" where
  "pair_height_sq rs i = wrap_int64 ((rect_height (rs ! i))\<^sup>2)"

definition pair_denom :: "Rect list \<Rightarrow> nat \<Rightarrow> int" where
  "pair_denom rs i = wrap_int64 ((rect_height (rs ! (i + 1)))\<^sup>2 + (rect_height (rs ! i))\<^sup>2)"

text \<open>How far rectangle \<open>i\<close> of \<open>f'\<close> reaches above, and below, the same rectangle of \<open>f\<close>.\<close>

definition moved_up :: "Frame \<Rightarrow> Frame \<Rightarrow> nat \<Rightarrow> int" where
  "moved_up f f' i = top_edge (rects f ! i) - top_edge (rects f' ! i)"

definition moved_down :: "Frame \<Rightarrow> Frame \<Rightarrow> nat \<Rightarrow> int" where
  "moved_down f f' i = bottom_edge (rects f' ! i) - bottom_edge (rects f ! i)"

text \<open>The frame after a call that returns: the loop has run over every rectangle.\<close>

definition expanded :: "Frame \<Rightarrow> int list \<Rightarrow> int list \<Rightarrow> Frame" where
  "expanded f pu pl = f\<lparr>rects := partial_state pu pl (rects f) (length (rects f))\<rparr>"


subsection \<open>The spec's words\<close>

text \<open>
  The share of a gap that the spec gives to the lower rectangle of a pair:
  \<open>r = h\<^bsub>i+1\<^esub>\<^sup>2 / (h\<^bsub>i\<^esub>\<^sup>2 + h\<^bsub>i+1\<^esub>\<^sup>2)\<close>.
\<close>

definition spec_ratio_for_lower :: "Rect list \<Rightarrow> nat \<Rightarrow> real" where
  "spec_ratio_for_lower rs i =
     real_of_int ((rect_height (rs ! (i + 1)))\<^sup>2) /
     real_of_int ((rect_height (rs ! i))\<^sup>2 + (rect_height (rs ! (i + 1)))\<^sup>2)"

text \<open>
  The spec's valid image: unsigned 8-bit samples, two dimensions, or three with exactly
  three channels.
\<close>

definition valid_image :: "image \<Rightarrow> bool" where
  "valid_image im =
     (img_dtype im = UInt8 \<and>
      (length (img_shape im) = 2 \<or> length (img_shape im) = 3 \<and> last (img_shape im) = 3))"

text \<open>
  The inputs the spec's claims are about: every rectangle lies in its frame with its
  top not below its bottom; the rectangles are in reading order and do not overlap; the
  first two points of a contour carry the top and the bottom edge of its rectangle, so
  that the gap read from the contours is the gap between the rectangles.
\<close>

definition in_frame :: "nat \<Rightarrow> nat \<Rightarrow> Rect \<Rightarrow> bool" where
  "in_frame h w r =
     (0 \<le> top_edge r \<and> top_edge r \<le> bottom_edge r \<and> bottom_edge r \<le> int h \<and>
      0 \<le> left_edge r \<and> left_edge r \<le> right_edge r \<and> right_edge r \<le> int w)"

definition rects_in_frame :: "Frame \<Rightarrow> bool" where
  "rects_in_frame f = list_all (in_frame (height f) (width f)) (rects f)"

definition non_overlapping :: "Rect list \<Rightarrow> bool" where
  "non_overlapping rs = list_all2 (\<lambda>a b. bottom_edge a \<le> top_edge b) (butlast rs) (tl rs)"

definition edges_on_contours :: "Frame \<Rightarrow> bool" where
  "edges_on_contours f =
     list_all2 (\<lambda>r c. 2 \<le> length c \<and> sint (snd (c ! 0)) = top_edge r \<and>
                      sint (snd (c ! 1)) = bottom_edge r)
       (rects f) (contours f)"

text \<open>
  The share of a pair is a fraction when the sum of the two squared heights is not
  zero, that is, the two rectangles are not both of height zero, and fits the 64-bit
  array.
\<close>

definition share_defined :: "Rect list \<Rightarrow> nat \<Rightarrow> bool" where
  "share_defined rs i =
     (0 < (rect_height (rs ! i))\<^sup>2 + (rect_height (rs ! (i + 1)))\<^sup>2 \<and>
      (rect_height (rs ! i))\<^sup>2 + (rect_height (rs ! (i + 1)))\<^sup>2 < 2 ^ 63)"

definition no_flat_pair :: "Rect list \<Rightarrow> bool" where
  "no_flat_pair rs =
     list_all2 (\<lambda>a b. 0 < (rect_height a)\<^sup>2 + (rect_height b)\<^sup>2) (butlast rs) (tl rs)"

subsection \<open>Example frames\<close>

definition box :: "int \<Rightarrow> int \<Rightarrow> Rect" where
  "box t b = \<lparr>top_edge = t, bottom_edge = b, left_edge = 0, right_edge = 300\<rparr>"

text \<open>
  The outline of the rows from \<open>t\<close> to \<open>b\<close>, from the left end of row \<open>t\<close> to the left
  end of row \<open>b\<close> and back along the right side.
\<close>

definition outline :: "int \<Rightarrow> int \<Rightarrow> Contour" where
  "outline t b =
     [(0, word_of_int t), (0, word_of_int b), (300, word_of_int b), (300, word_of_int t)]"

text \<open>
  A page of 100 rows and 300 columns: the rectangles span the rows \<open>rs\<close>, the contours
  are the outlines of the rows \<open>cs\<close>.
\<close>

definition page :: "(int \<times> int) list \<Rightarrow> (int \<times> int) list \<Rightarrow> Frame" where
  "page rs cs =
     \<lparr>img = \<lparr>img_dtype = UInt8, img_shape = [100, 300, 3]\<rparr>,
      gray_img = \<lparr>img_dtype = UInt8, img_shape = [100, 300]\<rparr>,
      height = 100, width = 300,
      rects = map (\<lambda>(t, b). box t b) rs,
      contours = map (\<lambda>(t, b). outline t b) cs\<rparr>"

definition single_line :: Frame where
  "single_line = page [(10, 20)] [(10, 20)]"

definition two_lines :: Frame where
  "two_lines = page [(10, 20), (27, 47)] [(10, 20), (27, 47)]"


definition lines_near_top :: Frame where
  "lines_near_top = page [(2, 12), (40, 50)] [(2, 12), (40, 50)]"

definition lines_near_bottom :: Frame where
  "lines_near_bottom = page [(50, 60), (88, 98)] [(50, 60), (88, 98)]"

definition three_bars :: Frame where
  "three_bars = page [(20, 30), (50, 60), (80, 90)] [(20, 30), (50, 60), (80, 90)]"

text \<open>Heights 7 and 6 with a gap of 85 rows: the exact share of the gap is 49.\<close>

definition uneven_lines :: Frame where
  "uneven_lines = page [(0, 7), (92, 98)] [(0, 7), (92, 98)]"

text \<open>Two rectangles of height zero, 10 rows apart.\<close>

definition flat_lines :: Frame where
  "flat_lines = page [(10, 10), (20, 20)] [(10, 10), (20, 20)]"

text \<open>
  Two rectangles whose height is \<open>2\<^sup>3\<^sup>2\<close>, with contours 10 rows apart: the squares of
  the heights are \<open>2\<^sup>6\<^sup>4\<close>, zero in a 64-bit array.
\<close>

definition huge_lines :: Frame where
  "huge_lines = page [(0, 4294967296), (4294967306, 8589934602)] [(0, 10), (20, 30)]"

text \<open>
  Two adjoining rectangles whose contours start at their bottom row, so that the gap
  read from the contours, 100 rows, is not the gap between the rectangles.
\<close>

definition upward_outlines :: Frame where
  "upward_outlines = page [(0, 60), (60, 100)] [(60, 0), (100, 60)]"

section \<open>Kernel sizes are odd and positive\<close>

lemma to_odd_is_odd: "odd (to_odd x)"
  unfolding to_odd_def Let_def by presburger

lemma to_odd_pos: "0 < x \<Longrightarrow> 1 \<le> to_odd x"
proof -
  assume "0 < x"
  then have "1 \<le> \<lceil>x\<rceil>" by linarith
  then show ?thesis unfolding to_odd_def Let_def by presburger
qed

lemma to_odd_fixes_odd: "odd k \<Longrightarrow> to_odd (of_int k) = k"
  unfolding to_odd_def Let_def by (simp add: odd_iff_mod_2_eq_one)

text \<open>
  Below 67 columns the size formula of the mask generator is 0, and the helper returns
  \<open>- 1\<close>.
\<close>

lemma generate_frame_ksize_small_width: "generate_frame_ksize blur_rate 50 = - 1"
proof -
  have "\<lfloor>3 / 4 :: real\<rfloor> = 0" by linarith
  then show ?thesis
    by (simp add: generate_frame_ksize_def size_formula_def blur_rate_def to_odd_def)
qed

text \<open>
  Claim C7. For a positive argument \<^verbatim>\<open>__to_odd\<close> returns an odd integer that is at
  least 1. At the effective-zone call site the argument is \<^verbatim>\<open>max(..., 1)\<close>, so the
  kernel is odd and at least 1 for every width; at the mask generator's call site it is
  odd and at least 1 whenever the size formula \<^verbatim>\<open>blur_rate * w // 100\<close> is positive.
\<close>

theorem kernel_dimension_odd_and_positive:
  "(0 < x \<longrightarrow> odd (to_odd x) \<and> 1 \<le> to_odd x) \<and>
   odd (effective_zone_ksize offset_rate w) \<and> 1 \<le> effective_zone_ksize offset_rate w \<and>
   (0 < size_formula blur_rate w \<longrightarrow>
      odd (generate_frame_ksize blur_rate w) \<and> 1 \<le> generate_frame_ksize blur_rate w)"
proof -
  have g: "odd (effective_zone_gauss offset_rate w) \<and> 1 \<le> effective_zone_gauss offset_rate w"
    unfolding effective_zone_gauss_def
    by (intro conjI to_odd_is_odd to_odd_pos) simp
  then have "effective_zone_ksize offset_rate w = effective_zone_gauss offset_rate w"
    unfolding effective_zone_ksize_def by (simp add: to_odd_fixes_odd)
  with g show ?thesis
    unfolding generate_frame_ksize_def by (simp add: to_odd_is_odd to_odd_pos)
qed

theorem kernel_dimension_odd_and_positive_witness:
  "0 < (5 / 2 :: real) \<and> to_odd (5 / 2) = 3 \<and> odd (to_odd (5 / 2)) \<and> 1 \<le> to_odd (5 / 2) \<and>
   0 < size_formula blur_rate 100 \<and> generate_frame_ksize blur_rate 100 = 1 \<and>
   odd (generate_frame_ksize blur_rate 100) \<and> 1 \<le> generate_frame_ksize blur_rate 100"
proof -
  have a: "0 < (5 / 2 :: real)" by simp
  have c: "\<lceil>5 / 2 :: real\<rceil> = 3" by linarith
  have f: "\<lfloor>3 / 2 :: real\<rfloor> = 1" by linarith
  have b: "size_formula blur_rate 100 = 1" by (simp add: size_formula_def blur_rate_def f)
  have v1: "to_odd (5 / 2) = 3" by (simp add: to_odd_def c)
  have v2: "generate_frame_ksize blur_rate 100 = 1"
    by (simp add: generate_frame_ksize_def b to_odd_def)
  show ?thesis
    using kernel_dimension_odd_and_positive [of "5 / 2" 100] a b v1 v2 by simp
qed

section \<open>The guard of the clustering helper\<close>

lemma KMeans_on_column:
  "KMeans_fit_predict clustering n (reshape_column a) =
     (if n = 0 \<or> np_size a < n then Inl ValueError else Inr (clustering (elems a) n))"
  by (simp add: KMeans_fit_predict_def reshape_column_def)

text \<open>
  Claim C8, as the code has it. The helper's own guard raises \<^verbatim>\<open>TypeError\<close> exactly
  when the input has a first dimension and it differs from the number of elements; a
  zero-dimensional input raises \<^verbatim>\<open>IndexError\<close> on \<^verbatim>\<open>img.shape[0]\<close>. A
  single-column input passes the guard and reaches the model, whose \<^verbatim>\<open>fit\<close> raises
  \<^verbatim>\<open>ValueError\<close> when the column has fewer rows than clusters; the helper returns
  the clustering exactly on a single column of at least \<open>n\<close> rows, \<open>n\<close> at least 1.
\<close>

theorem clustering_helper_outcomes:
  "(generate_row_label_Kmeans clustering a n = Inl IndexError \<longleftrightarrow> shape a = []) \<and>
   (generate_row_label_Kmeans clustering a n = Inl TypeError \<longleftrightarrow>
      shape a \<noteq> [] \<and> hd (shape a) \<noteq> np_size a) \<and>
   (generate_row_label_Kmeans clustering a n = Inl ValueError \<longleftrightarrow>
      shape a \<noteq> [] \<and> hd (shape a) = np_size a \<and> (n = 0 \<or> np_size a < n)) \<and>
   (generate_row_label_Kmeans clustering a n = Inr (clustering (elems a) n) \<longleftrightarrow>
      shape a \<noteq> [] \<and> hd (shape a) = np_size a \<and> 0 < n \<and> n \<le> np_size a)"
proof (cases "shape a")
  case Nil
  then show ?thesis by (simp add: generate_row_label_Kmeans_def)
next
  case (Cons d0 ds)
  show ?thesis
  proof (cases "d0 = np_size a")
    case False
    with Cons show ?thesis by (simp add: generate_row_label_Kmeans_def)
  next
    case True
    with Cons have "generate_row_label_Kmeans clustering a n =
        (if n = 0 \<or> np_size a < n then Inl ValueError else Inr (clustering (elems a) n))"
      by (simp add: generate_row_label_Kmeans_def KMeans_on_column)
    with Cons True show ?thesis by auto
  qed
qed

theorem clustering_helper_outcomes_witness:
  "generate_row_label_Kmeans (\<lambda>xs k. (length xs, k))
       \<lparr>shape = [2, 3], elems = [1, 2, 3, 4, 5, 6]\<rparr> 3 = Inl TypeError \<and>
   generate_row_label_Kmeans (\<lambda>xs k. (length xs, k))
       \<lparr>shape = [4], elems = [1, 2, 3, 4]\<rparr> 3 = Inr (4, 3) \<and>
   generate_row_label_Kmeans (\<lambda>xs k. (length xs, k))
       \<lparr>shape = [4, 1], elems = [1, 2, 3, 4]\<rparr> 3 = Inr (4, 3)"
proof -
  have "generate_row_label_Kmeans (\<lambda>xs k. (length xs, k))
       \<lparr>shape = [2, 3], elems = [1, 2, 3, 4, 5, 6]\<rparr> 3 = Inl TypeError"
    using clustering_helper_outcomes
      [of "\<lambda>xs k. (length xs, k)" "\<lparr>shape = [2, 3], elems = [1, 2, 3, 4, 5, 6]\<rparr>" 3]
    by (simp add: np_size_def)
  moreover have "generate_row_label_Kmeans (\<lambda>xs k. (length xs, k))
       \<lparr>shape = [4], elems = [1, 2, 3, 4]\<rparr> 3 = Inr (4, 3)"
    using clustering_helper_outcomes
      [of "\<lambda>xs k. (length xs, k)" "\<lparr>shape = [4], elems = [1, 2, 3, 4]\<rparr>" 3]
    by (simp add: np_size_def)
  moreover have "generate_row_label_Kmeans (\<lambda>xs k. (length xs, k))
       \<lparr>shape = [4, 1], elems = [1, 2, 3, 4]\<rparr> 3 = Inr (4, 3)"
    using clustering_helper_outcomes
      [of "\<lambda>xs k. (length xs, k)" "\<lparr>shape = [4, 1], elems = [1, 2, 3, 4]\<rparr>" 3]
    by (simp add: np_size_def)
  ultimately show ?thesis by blast
qed

text \<open>
  Claim C8 as the spec states it fails on a single column of two rows, one value per
  row: the guard passes, and the model raises \<^verbatim>\<open>ValueError\<close> for want of a third
  row. It fails also on a zero-dimensional input, which has no columns at all and
  raises \<^verbatim>\<open>IndexError\<close>.
\<close>

theorem short_column_counterexample:
  "hd (shape \<lparr>shape = [2], elems = [1, 2]\<rparr>) = np_size \<lparr>shape = [2], elems = [1, 2]\<rparr> \<and>
   generate_row_label_Kmeans (\<lambda>xs k. (length xs, k)) \<lparr>shape = [2], elems = [1, 2]\<rparr> 3
     = Inl ValueError \<and>
   generate_row_label_Kmeans (\<lambda>xs k. (length xs, k)) \<lparr>shape = [2, 1], elems = [1, 2]\<rparr> 3
     = Inl ValueError \<and>
   generate_row_label_Kmeans (\<lambda>xs k. (length xs, k)) \<lparr>shape = [], elems = [1]\<rparr> 3
     = Inl IndexError"
  by (simp add: generate_row_label_Kmeans_def KMeans_on_column np_size_def)

section \<open>The rectangle expander\<close>

subsection \<open>The loop\<close>

lemma partial_state_0: "partial_state pu pl rs 0 = rs"
  by (auto intro!: nth_equalityI simp: partial_state_def partial_rect_def)

lemma length_partial_state [simp]: "length (partial_state pu pl rs k) = length rs"
  by (simp add: partial_state_def)

lemma partial_state_Nil [simp]: "partial_state pu pl rs k = [] \<longleftrightarrow> rs = []"
  by (simp add: partial_state_def)

lemma expand_loop_append:
  "expand_loop L pu pl (xs @ ys) rs = and_then (expand_loop L pu pl xs rs) (expand_loop L pu pl ys)"
proof (induction xs arbitrary: rs)
  case Nil
  show ?case by (simp add: and_then_def)
next
  case (Cons i js)
  show ?case
    by (cases "expand_step L pu pl i rs") (auto simp: and_then_def Cons split: option.splits)
qed

lemma partial_state_nth:
  "j < length rs \<Longrightarrow> partial_state pu pl rs k ! j = partial_rect (length rs) pu pl rs k j"
  by (simp add: partial_state_def)

lemma step_first:
  assumes len: "2 \<le> length rs" "length pu = length rs - 1" "length pl = length rs - 1"
  shows "expand_step (int (length rs)) pu pl 0 rs =
       (None, list_update (list_update (list_update rs 0 (expand_below (pu ! 0) (rs ! 0)))
                 (Suc 0) (expand_above (pl ! 0) (rs ! Suc 0)))
                 0 (expand_above (pu ! 0) (expand_below (pu ! 0) (rs ! 0))))"
proof -
  from len have ne: "rs \<noteq> []" "pu \<noteq> []" "pl \<noteq> []" by auto
  from len have lt: "(1::int) < int (length rs)" by simp
  show ?thesis
    using ne lt
    by (simp add: expand_step_def and_then_def call_expand_def np_get_def)
qed

lemmas rect_ops = grown_def expand_above_def expand_below_def up_amount_def down_amount_def

lemma step_first_state:
  assumes len: "2 \<le> length rs"
  shows "list_update (list_update (list_update rs 0 (expand_below (pu ! 0) (rs ! 0)))
                 (Suc 0) (expand_above (pl ! 0) (rs ! Suc 0)))
                 0 (expand_above (pu ! 0) (expand_below (pu ! 0) (rs ! 0)))
         = partial_state pu pl rs (Suc 0)"
proof (rule nth_equalityI)
  show "length (list_update (list_update (list_update rs 0 (expand_below (pu ! 0) (rs ! 0)))
                 (Suc 0) (expand_above (pl ! 0) (rs ! Suc 0)))
                 0 (expand_above (pu ! 0) (expand_below (pu ! 0) (rs ! 0))))
        = length (partial_state pu pl rs (Suc 0))" by simp
next
  fix j
  assume "j < length (list_update (list_update (list_update rs 0 (expand_below (pu ! 0) (rs ! 0)))
                 (Suc 0) (expand_above (pl ! 0) (rs ! Suc 0)))
                 0 (expand_above (pu ! 0) (expand_below (pu ! 0) (rs ! 0))))"
  then have j: "j < length rs" by simp
  consider "j = 0" | "j = Suc 0" | "Suc 0 < j" by linarith
  then show "list_update (list_update (list_update rs 0 (expand_below (pu ! 0) (rs ! 0)))
                 (Suc 0) (expand_above (pl ! 0) (rs ! Suc 0)))
                 0 (expand_above (pu ! 0) (expand_below (pu ! 0) (rs ! 0))) ! j
         = partial_state pu pl rs (Suc 0) ! j"
  proof cases
    case 1
    with j len show ?thesis
      by (simp add: partial_state_nth partial_rect_def rect_ops)
  next
    case 2
    with j len show ?thesis
      by (simp add: partial_state_nth partial_rect_def rect_ops)
  next
    case 3
    with j len show ?thesis
      by (simp add: partial_state_nth partial_rect_def rect_ops)
  qed
qed

lemma step_mid:
  assumes len: "length pu = length rs - 1" "length pl = length rs - 1"
      and k: "0 < k" "k + 1 < length rs" and s: "length s = length rs"
  shows "expand_step (int (length rs)) pu pl k s =
       (None, list_update (list_update s k (expand_below (pu ! k) (s ! k)))
                 (Suc k) (expand_above (pl ! k) (s ! Suc k)))"
proof -
  from k have a: "int k < int (length rs) - 1" "int k \<noteq> int (length rs) - 1" by auto
  from k len have b: "int k < int (length pu)" "int k < int (length pl)" by auto
  show ?thesis
    using a b k(1) s
    by (simp add: expand_step_def and_then_def call_expand_def np_get_def)
qed

lemma step_mid_state:
  assumes k: "0 < k" "k + 1 < length rs"
  shows "list_update (list_update (partial_state pu pl rs k) k
                (expand_below (pu ! k) (partial_state pu pl rs k ! k)))
            (Suc k) (expand_above (pl ! k) (partial_state pu pl rs k ! Suc k))
         = partial_state pu pl rs (Suc k)" (is "?l = ?r")
proof (rule nth_equalityI)
  show "length ?l = length ?r" by simp
next
  fix j
  assume "j < length ?l"
  then have j: "j < length rs" by simp
  consider "j < k" | "j = k" | "j = Suc k" | "Suc k < j" by linarith
  then show "?l ! j = ?r ! j"
  proof cases
    case 1
    with j k show ?thesis
      by (simp add: partial_state_nth partial_rect_def rect_ops)
  next
    case 2
    with j k show ?thesis
      by (simp add: partial_state_nth partial_rect_def rect_ops)
  next
    case 3
    with j k show ?thesis
      by (simp add: partial_state_nth partial_rect_def rect_ops)
  next
    case 4
    with j k show ?thesis
      by (simp add: partial_state_nth partial_rect_def rect_ops)
  qed
qed

lemma step_last:
  assumes len: "2 \<le> length rs" "length pl = length rs - 1"
      and k: "k + 1 = length rs" and s: "length s = length rs"
  shows "expand_step (int (length rs)) pu pl k s =
       (None, list_update s k (expand_below (pl ! (k - 1)) (s ! k)))"
proof -
  from k len have a: "\<not> int k < int (length rs) - 1" "int k = int (length rs) - 1" "k \<noteq> 0"
    by auto
  from k len have b: "0 \<le> int k - 1" "int k - 1 < int (length pl)" "nat (int k - 1) = k - 1"
    by auto
  show ?thesis
    using a b s
    by (simp add: expand_step_def and_then_def call_expand_def np_get_def)
qed

lemma step_last_state:
  assumes len: "2 \<le> length rs" and k: "k + 1 = length rs"
  shows "list_update (partial_state pu pl rs k) k
            (expand_below (pl ! (k - 1)) (partial_state pu pl rs k ! k))
         = partial_state pu pl rs (Suc k)" (is "?l = ?r")
proof (rule nth_equalityI)
  show "length ?l = length ?r" by simp
next
  fix j
  assume "j < length ?l"
  then have j: "j < length rs" by simp
  from len k have k0: "0 < k" "length rs - 2 = k - 1" by auto
  consider "j < k" | "j = k" using j k by linarith
  then show "?l ! j = ?r ! j"
  proof cases
    case 1
    with j k k0 show ?thesis
      by (simp add: partial_state_nth partial_rect_def rect_ops)
  next
    case 2
    with j k k0 show ?thesis
      by (simp add: partial_state_nth partial_rect_def rect_ops)
  qed
qed

lemma expand_step_partial:
  assumes len: "2 \<le> length rs" "length pu = length rs - 1" "length pl = length rs - 1"
      and k: "k < length rs"
  shows "expand_step (int (length rs)) pu pl k (partial_state pu pl rs k)
           = (None, partial_state pu pl rs (Suc k))"
proof -
  consider (first) "k = 0" | (mid) "0 < k" "k + 1 < length rs" | (last) "0 < k" "k + 1 = length rs"
    using k by linarith
  then show ?thesis
  proof cases
    case first
    then show ?thesis
      using step_first [OF len] step_first_state [OF len(1), of pu pl]
      by (simp add: partial_state_0)
  next
    case mid
    then show ?thesis
      using step_mid [OF len(2,3) mid, of "partial_state pu pl rs k"] step_mid_state [OF mid, of pu pl]
      by simp
  next
    case last
    then show ?thesis
      using step_last [OF len(1,3) last(2), of "partial_state pu pl rs k" pu]
        step_last_state [OF len(1) last(2), of pu pl]
      by simp
  qed
qed

lemma expand_loop_prefix:
  assumes len: "2 \<le> length rs" "length pu = length rs - 1" "length pl = length rs - 1"
  shows "k \<le> length rs \<Longrightarrow>
         expand_loop (int (length rs)) pu pl [0..<k] rs = (None, partial_state pu pl rs k)"
proof (induction k)
  case 0
  show ?case by (simp add: partial_state_0)
next
  case (Suc k)
  then have "expand_loop (int (length rs)) pu pl [0..<k] rs = (None, partial_state pu pl rs k)"
    by simp
  moreover have "expand_step (int (length rs)) pu pl k (partial_state pu pl rs k)
           = (None, partial_state pu pl rs (Suc k))"
    using expand_step_partial [OF len] Suc.prems by simp
  ultimately show ?case
    by (simp add: expand_loop_append and_then_def)
qed

subsection \<open>The gaps read from the contours\<close>

lemma slice_odd_flatten: "slice_odd (flatten_points ds) = map snd ds"
  by (induction ds) (simp_all add: flatten_points_def)

lemma np_get_Inr_nat: "np_get xs (int i) = Inr x \<Longrightarrow> i < length xs \<and> x = xs ! i"
  by (auto simp: np_get_def split: if_splits)

lemma np_get_Inr_Suc: "np_get xs (int i + 1) = Inr x \<Longrightarrow> i + 1 < length xs \<and> x = xs ! (i + 1)"
  using np_get_Inr_nat [of xs "i + 1" x] by (simp add: add.commute)

lemma np_get_Inr_0: "np_get xs 0 = Inr x \<Longrightarrow> 0 < length xs \<and> x = xs ! 0"
  using np_get_Inr_nat [of xs 0 x] by simp

lemma np_get_Inr_1: "np_get xs 1 = Inr x \<Longrightarrow> 1 < length xs \<and> x = xs ! 1"
  using np_get_Inr_nat [of xs 1 x] by simp

lemma point_diff_Inr:
  assumes "point_diff cs i = Inr d"
  shows "snd d = dist_entry cs i"
proof -
  from assms obtain c1 p c0 q where
    g: "np_get cs (int i + 1) = Inr c1" "np_get c1 0 = Inr p"
       "np_get cs (int i) = Inr c0" "np_get c0 1 = Inr q"
    and d: "d = (fst p - fst q, snd p - snd q)"
    by (auto simp: point_diff_def split: sum.splits)
  have e1: "c1 = cs ! (i + 1)" using np_get_Inr_Suc [OF g(1)] by simp
  have e2: "p = c1 ! 0" using np_get_Inr_0 [OF g(2)] by simp
  have e3: "c0 = cs ! i" using np_get_Inr_nat [OF g(3)] by simp
  have e4: "q = c0 ! 1" using np_get_Inr_1 [OF g(4)] by simp
  from d e1 e2 e3 e4 show ?thesis by (simp add: dist_entry_def)
qed

lemma point_diffs_Inr:
  "point_diffs cs js = Inr ds \<Longrightarrow> map snd ds = map (dist_entry cs) js"
proof (induction js arbitrary: ds)
  case Nil
  then show ?case by simp
next
  case (Cons i js)
  then obtain d ds' where
    "point_diff cs i = Inr d" "point_diffs cs js = Inr ds'" "ds = d # ds'"
    by (auto split: sum.splits)
  with Cons.IH show ?case by (simp add: point_diff_Inr)
qed

lemma dist_array_Inr: "dist_array cs Len = Inr ds \<Longrightarrow> ds = map (dist_entry cs) [0..<Len - 1]"
  by (auto simp: dist_array_def slice_odd_flatten split: sum.splits dest: point_diffs_Inr)

subsection \<open>Rounding to float64\<close>

text \<open>Powers of two, and the exponent of a positive real.\<close>

lemma pow2_powr: "pow2 e = 2 powr (real_of_int e)"
proof (cases "0 \<le> e")
  case True
  then show ?thesis by (simp add: pow2_def powr_realpow [symmetric])
next
  case False
  then have "2 powr real_of_int e = 2 powr (- real (nat (- e)))" by simp
  also have "\<dots> = 1 / 2 ^ nat (- e)"
    by (simp only: powr_minus powr_realpow [symmetric] inverse_eq_divide)
  finally show ?thesis using False by (simp add: pow2_def)
qed

lemma pow2_pos: "0 < pow2 e"
  by (simp add: pow2_powr)

lemma pow2_add: "pow2 (a + b) = pow2 a * pow2 b"
  by (simp add: pow2_powr powr_add)

lemma pow2_mono: "a \<le> b \<Longrightarrow> pow2 a \<le> pow2 b"
  by (simp add: pow2_powr)

lemma pow2_less_iff: "pow2 a < pow2 b \<longleftrightarrow> a < b"
  by (simp add: pow2_powr)

lemma pow2_nat: "pow2 (int n) = 2 ^ n"
  by (simp add: pow2_def)

lemma ilog2_bounds:
  assumes "0 < x"
  shows "pow2 (ilog2 x) \<le> x \<and> x < pow2 (ilog2 x + 1)"
proof (cases "1 \<le> x")
  case True
  let ?n = "nat \<lfloor>x\<rfloor>"
  from True have n: "0 < ?n" by simp
  from floorlog_bounds [OF n, of 2]
  have b: "2 ^ (floorlog 2 ?n - 1) \<le> ?n" "?n < 2 ^ floorlog 2 ?n" by simp_all
  from n have flg0: "0 < floorlog 2 ?n" by (simp add: floorlog_def)
  have e: "ilog2 x = int (floorlog 2 ?n - 1)" using True flg0 by (simp add: ilog2_def)
  have e1: "ilog2 x + 1 = int (floorlog 2 ?n)" using True flg0 by (simp add: ilog2_def)
  have rn: "real ?n = of_int \<lfloor>x\<rfloor>" using True by simp
  have "real (2 ^ (floorlog 2 ?n - 1)) \<le> real ?n" using b(1) by (simp only: of_nat_le_iff)
  also have "real ?n \<le> x" unfolding rn by simp
  finally have lo: "pow2 (ilog2 x) \<le> x" by (simp add: e pow2_nat)
  from b(2) have "Suc ?n \<le> 2 ^ floorlog 2 ?n" by (rule Suc_leI)
  then have "real (Suc ?n) \<le> real (2 ^ floorlog 2 ?n)" by (simp only: of_nat_le_iff)
  then have "real ?n + 1 \<le> 2 ^ floorlog 2 ?n" by simp
  moreover have "x < real ?n + 1" unfolding rn by linarith
  ultimately have "x < 2 ^ floorlog 2 ?n" by linarith
  then have hi: "x < pow2 (ilog2 x + 1)" by (simp add: e1 pow2_nat)
  from lo hi show ?thesis by simp
next
  case False
  then have x1: "x < 1" by simp
  let ?y = "1 / x"
  let ?m = "nat (\<lceil>?y\<rceil> - 1)"
  let ?k = "floorlog 2 ?m"
  from x1 assms have y1: "1 < ?y" by simp
  then have c2: "2 \<le> \<lceil>?y\<rceil>" by linarith
  then have m: "0 < ?m" by simp
  from floorlog_bounds [OF m, of 2]
  have b: "2 ^ (?k - 1) \<le> ?m" "?m < 2 ^ ?k" by simp_all
  from m have k0: "0 < ?k" by (simp add: floorlog_def)
  have e: "ilog2 x = - int ?k" using False by (simp add: ilog2_def)
  from c2 have z0: "0 \<le> \<lceil>?y\<rceil> - 1" by linarith
  have "real ?m = of_int (\<lceil>?y\<rceil> - 1)" using z0 by (rule of_nat_nat)
  then have rm: "real ?m = of_int \<lceil>?y\<rceil> - 1" by (simp only: of_int_diff of_int_1)
  from b(2) have "Suc ?m \<le> 2 ^ ?k" by (rule Suc_leI)
  then have "real (Suc ?m) \<le> real (2 ^ ?k)" by (simp only: of_nat_le_iff)
  then have "real ?m + 1 \<le> 2 ^ ?k" by simp
  then have "of_int \<lceil>?y\<rceil> \<le> (2::real) ^ ?k" unfolding rm by simp
  moreover have "?y \<le> of_int \<lceil>?y\<rceil>" by simp
  ultimately have "?y \<le> 2 ^ ?k" by linarith
  then have "1 \<le> x * 2 ^ ?k" using assms by (simp add: field_simps)
  then have "1 / 2 ^ ?k \<le> x" by (simp add: divide_le_eq)
  moreover have "pow2 (- int ?k) = 1 / 2 ^ ?k" using k0 by (simp add: pow2_def)
  ultimately have lo: "pow2 (- int ?k) \<le> x" by (simp only:)
  have "real (2 ^ (?k - 1)) \<le> real ?m" using b(1) by (simp only: of_nat_le_iff)
  then have "(2::real) ^ (?k - 1) \<le> of_int \<lceil>?y\<rceil> - 1" unfolding rm by simp
  moreover have "of_int \<lceil>?y\<rceil> - 1 < ?y" by linarith
  ultimately have "2 ^ (?k - 1) < ?y" by linarith
  then have "x * 2 ^ (?k - 1) < 1" using assms by (simp add: field_simps)
  then have "x < 1 / 2 ^ (?k - 1)" by (simp add: less_divide_eq)
  moreover have "pow2 (- int ?k + 1) = 1 / 2 ^ (?k - 1)"
  proof (cases "?k = 1")
    case True
    then show ?thesis by (simp add: pow2_def)
  next
    case False
    with k0 have "\<not> 0 \<le> - int ?k + 1" "nat (- (- int ?k + 1)) = ?k - 1" by simp_all
    then show ?thesis by (simp only: pow2_def if_False)
  qed
  ultimately have hi: "x < pow2 (- int ?k + 1)" by (simp only:)
  from lo hi show ?thesis by (simp add: e)
qed

lemma ilog2_unique:
  assumes "pow2 e \<le> x" "x < pow2 (e + 1)"
  shows "ilog2 x = e"
proof -
  have x: "0 < x" using assms(1) pow2_pos [of e] by linarith
  from ilog2_bounds [OF x] have b: "pow2 (ilog2 x) \<le> x" "x < pow2 (ilog2 x + 1)" by simp_all
  have "pow2 e < pow2 (ilog2 x + 1)" using assms(1) b(2) by linarith
  then have 1: "e < ilog2 x + 1" by (simp add: pow2_less_iff)
  have "pow2 (ilog2 x) < pow2 (e + 1)" using assms(2) b(1) by linarith
  then have 2: "ilog2 x < e + 1" by (simp add: pow2_less_iff)
  from 1 2 show ?thesis by simp
qed

lemma ilog2_mono:
  assumes "0 < x" "x \<le> y"
  shows "ilog2 x \<le> ilog2 y"
proof -
  have y: "0 < y" using assms by linarith
  have "pow2 (ilog2 x) \<le> x" using ilog2_bounds [OF assms(1)] by simp
  also have "x \<le> y" by fact
  also have "y < pow2 (ilog2 y + 1)" using ilog2_bounds [OF y] by simp
  finally have "ilog2 x < ilog2 y + 1" by (simp add: pow2_less_iff)
  then show ?thesis by simp
qed

text \<open>Rounding to an integer is monotone, odd, and leaves an integer as it is.\<close>

lemma round_half_even_of_int [simp]: "round_half_even (of_int k) = k"
  by (simp add: round_half_even_def)

lemma round_half_even_floor:
  "\<lfloor>x\<rfloor> \<le> round_half_even x \<and> round_half_even x \<le> \<lfloor>x\<rfloor> + 1"
  by (simp add: round_half_even_def Let_def)

lemma round_half_even_mono:
  assumes "x \<le> y"
  shows "round_half_even x \<le> round_half_even y"
proof (cases "\<lfloor>x\<rfloor> = \<lfloor>y\<rfloor>")
  case True
  with assms show ?thesis by (simp add: round_half_even_def Let_def)
next
  case False
  moreover have "\<lfloor>x\<rfloor> \<le> \<lfloor>y\<rfloor>" using assms by (rule floor_mono)
  ultimately have "\<lfloor>x\<rfloor> + 1 \<le> \<lfloor>y\<rfloor>" by simp
  with round_half_even_floor [of x] round_half_even_floor [of y] show ?thesis by linarith
qed

lemma round_half_even_minus: "round_half_even (- x) = - round_half_even x"
proof (cases "x = of_int \<lfloor>x\<rfloor>")
  case True
  have "round_half_even (- of_int \<lfloor>x\<rfloor>) = - round_half_even (of_int \<lfloor>x\<rfloor>)"
    by (simp flip: of_int_minus)
  then show ?thesis by (subst (1 2) True) simp
next
  case False
  define n where "n = \<lfloor>x\<rfloor>"
  define t where "t = x - of_int n"
  from False have f: "\<lfloor>- x\<rfloor> = - n - 1" by (simp add: floor_minus ceiling_altdef n_def)
  have d: "- x - of_int (- n - 1) = 1 - t" by (simp add: t_def)
  have e: "even (- n - 1) \<longleftrightarrow> odd n" by simp
  have A: "round_half_even x =
             (if t < 1 / 2 then n else if 1 / 2 < t then n + 1 else if even n then n else n + 1)"
    by (simp add: round_half_even_def Let_def n_def t_def)
  have B: "round_half_even (- x) =
             (if 1 - t < 1 / 2 then - n - 1 else if 1 / 2 < 1 - t then - n
              else if odd n then - n - 1 else - n)"
    unfolding round_half_even_def Let_def f d e by simp
  show ?thesis
    unfolding A B by (cases "t < 1 / 2"; cases "1 / 2 < t"; cases "even n"; simp)
qed

text \<open>
  Rounding to float64 keeps a positive value within its binade, is odd and monotone,
  and leaves an integer below \<open>2\<^sup>5\<^sup>3\<close> in magnitude as it is.
\<close>

lemma round_float64_0 [simp]: "round_float64 0 = 0"
  by (simp add: round_float64_def)

lemma round_float64_minus: "round_float64 (- x) = - round_float64 x"
  by (simp add: round_float64_def Let_def round_half_even_minus)

lemma round_float64_pos_bounds:
  assumes "0 < x"
  shows "pow2 (ilog2 x) \<le> round_float64 x \<and> round_float64 x \<le> pow2 (ilog2 x + 1)"
proof -
  define e where "e = ilog2 x"
  define u where "u = pow2 (e - 52)"
  have u: "0 < u" by (simp add: u_def pow2_pos)
  have p52: "pow2 52 = 2 ^ 52" "pow2 53 = 2 ^ 53" by (simp_all add: pow2_def)
  have lo: "pow2 e = u * 2 ^ 52" using pow2_add [of "e - 52" 52] by (simp add: u_def p52)
  have hi: "pow2 (e + 1) = u * 2 ^ 53"
    using pow2_add [of "e - 52" 53] by (simp add: u_def p52 add.commute)
  from ilog2_bounds [OF assms] have b: "u * 2 ^ 52 \<le> x" "x < u * 2 ^ 53"
    by (simp_all add: e_def [symmetric] lo hi)
  from b(1) u have "of_int (2 ^ 52) \<le> x / u" by (simp add: le_divide_eq mult.commute)
  then have "round_half_even (of_int (2 ^ 52)) \<le> round_half_even (x / u)"
    by (rule round_half_even_mono)
  then have m1: "2 ^ 52 \<le> round_half_even (x / u)" by (simp only: round_half_even_of_int)
  from b(2) u have "x / u \<le> of_int (2 ^ 53)" by (simp add: divide_le_eq mult.commute)
  then have "round_half_even (x / u) \<le> round_half_even (of_int (2 ^ 53))"
    by (rule round_half_even_mono)
  then have m2: "round_half_even (x / u) \<le> 2 ^ 53" by (simp only: round_half_even_of_int)
  have f: "round_float64 x = u * of_int (round_half_even (x / u))"
    using assms by (simp add: round_float64_def Let_def u_def e_def)
  from m1 have "(2::real) ^ 52 \<le> of_int (round_half_even (x / u))"
    by (metis of_int_le_iff of_int_numeral of_int_power)
  then have 1: "u * 2 ^ 52 \<le> round_float64 x" unfolding f using u by simp
  from m2 have "of_int (round_half_even (x / u)) \<le> (2::real) ^ 53"
    by (metis of_int_le_iff of_int_numeral of_int_power)
  then have 2: "round_float64 x \<le> u * 2 ^ 53" unfolding f using u by simp
  from 1 2 show ?thesis by (simp add: e_def [symmetric] lo hi)
qed

lemma round_float64_pos: "0 < x \<Longrightarrow> 0 < round_float64 x"
  using round_float64_pos_bounds [of x] pow2_pos [of "ilog2 x"] by linarith

lemma round_float64_mono_pos:
  assumes "0 < x" "x \<le> y"
  shows "round_float64 x \<le> round_float64 y"
proof -
  have y: "0 < y" using assms by linarith
  have le: "ilog2 x \<le> ilog2 y" by (rule ilog2_mono [OF assms])
  show ?thesis
  proof (cases "ilog2 x = ilog2 y")
    case True
    define u where "u = pow2 (ilog2 y - 52)"
    have u: "0 < u" by (simp add: u_def pow2_pos)
    have fx: "round_float64 x = u * of_int (round_half_even (x / u))"
      using assms(1) by (simp add: round_float64_def Let_def u_def True)
    have fy: "round_float64 y = u * of_int (round_half_even (y / u))"
      using y by (simp add: round_float64_def Let_def u_def)
    have "x / u \<le> y / u" using assms(2) u by (simp add: divide_right_mono)
    then have "round_half_even (x / u) \<le> round_half_even (y / u)" by (rule round_half_even_mono)
    then show ?thesis unfolding fx fy using u by simp
  next
    case False
    with le have "ilog2 x + 1 \<le> ilog2 y" by simp
    then have "pow2 (ilog2 x + 1) \<le> pow2 (ilog2 y)" by (rule pow2_mono)
    with round_float64_pos_bounds [OF assms(1)] round_float64_pos_bounds [OF y]
    show ?thesis by linarith
  qed
qed

lemma round_float64_nonneg: "0 \<le> x \<Longrightarrow> 0 \<le> round_float64 x"
  using round_float64_pos [of x] by (cases "x = 0") simp_all

lemma round_float64_mono:
  assumes "x \<le> y"
  shows "round_float64 x \<le> round_float64 y"
proof -
  consider "0 < x" | "x \<le> 0" "0 \<le> y" | "y < 0" by linarith
  then show ?thesis
  proof cases
    case 1
    then show ?thesis using assms by (rule round_float64_mono_pos)
  next
    case 2
    have "round_float64 x = - round_float64 (- x)" by (simp add: round_float64_minus)
    moreover have "0 \<le> round_float64 (- x)" using 2(1) by (intro round_float64_nonneg) simp
    moreover have "0 \<le> round_float64 y" using 2(2) by (rule round_float64_nonneg)
    ultimately show ?thesis by linarith
  next
    case 3
    then have "0 < - y" "- y \<le> - x" using assms by simp_all
    then have "round_float64 (- y) \<le> round_float64 (- x)" by (rule round_float64_mono_pos)
    then show ?thesis by (simp add: round_float64_minus)
  qed
qed

lemma round_float64_of_nat_int:
  assumes "0 < k" "k < 2 ^ 53"
  shows "round_float64 (of_int k) = of_int k"
proof -
  define e where "e = ilog2 (of_int k)"
  have k: "(0::real) < of_int k" using assms(1) by simp
  have "pow2 e \<le> of_int k" using ilog2_bounds [OF k] by (simp add: e_def)
  also have "real_of_int k < of_int (2 ^ 53)" using assms(2) by (simp only: of_int_less_iff)
  also have "of_int (2 ^ 53) = pow2 53" by (simp add: pow2_def)
  finally have "e < 53" by (simp add: pow2_less_iff)
  then have e: "e - 52 \<le> 0" by simp
  define n where "n = nat (52 - e)"
  have u: "pow2 (e - 52) = 1 / 2 ^ n"
  proof (cases "e = 52")
    case True
    then show ?thesis by (simp add: pow2_def n_def)
  next
    case False
    with e have "\<not> 0 \<le> e - 52" "nat (- (e - 52)) = n" by (simp_all add: n_def)
    then show ?thesis by (simp only: pow2_def if_False)
  qed
  have q: "real_of_int k / (1 / 2 ^ n) = of_int (k * 2 ^ n)" by simp
  have "round_float64 (of_int k) = (1 / 2 ^ n) * of_int (round_half_even (of_int (k * 2 ^ n)))"
    using k by (simp only: round_float64_def Let_def e_def [symmetric] u q abs_of_pos) simp
  also have "\<dots> = of_int k" by (simp only: round_half_even_of_int) simp
  finally show ?thesis .
qed

lemma round_float64_of_int:
  assumes "\<bar>k\<bar> < 2 ^ 53"
  shows "round_float64 (of_int k) = of_int k"
proof -
  consider "0 < k" | "k = 0" | "k < 0" by linarith
  then show ?thesis
  proof cases
    case 1
    with assms show ?thesis by (intro round_float64_of_nat_int) simp_all
  next
    case 2
    then show ?thesis by simp
  next
    case 3
    with assms have "round_float64 (of_int (- k)) = of_int (- k)"
      by (intro round_float64_of_nat_int) simp_all
    then show ?thesis by (simp add: round_float64_minus)
  qed
qed

lemma round_float64_1 [simp]: "round_float64 1 = 1"
  using round_float64_of_int [of 1] by simp

subsection \<open>Machine integers\<close>

lemma sint_int32: "- (2 ^ 31) \<le> k \<Longrightarrow> k < 2 ^ 31 \<Longrightarrow> sint (word_of_int k :: int32) = k"
  by (simp add: sint_sbintrunc' signed_take_bit_int_eq_self)

lemma sint_int64: "- (2 ^ 63) \<le> k \<Longrightarrow> k < 2 ^ 63 \<Longrightarrow> sint (word_of_int k :: int64) = k"
  by (simp add: sint_sbintrunc' signed_take_bit_int_eq_self)

lemma sint_int32_range: "- (2 ^ 31) \<le> sint (w :: int32) \<and> sint w < 2 ^ 31"
  using sint_ge [of w] sint_lt [of w] by simp

lemma wrap_int32_id: "- (2 ^ 31) \<le> k \<Longrightarrow> k < 2 ^ 31 \<Longrightarrow> wrap_int32 k = k"
  by (simp add: wrap_int32_def sint_int32)

lemma wrap_int64_id: "- (2 ^ 63) \<le> k \<Longrightarrow> k < 2 ^ 63 \<Longrightarrow> wrap_int64 k = k"
  by (simp add: wrap_int64_def sint_int64)

lemma gap_range: "- (2 ^ 31) \<le> gap cs i \<and> gap cs i < 2 ^ 31"
  unfolding gap_def by (rule sint_int32_range)

subsection \<open>The shares\<close>

lemma length_np_roll_back [simp]: "length (np_roll_back xs) = length xs"
  by (cases xs) (simp_all add: np_roll_back_def)

lemma np_roll_back_nth: "i + 1 < length xs \<Longrightarrow> np_roll_back xs ! i = xs ! (i + 1)"
  by (cases xs) (simp_all add: np_roll_back_def nth_append)

lemma length_height_sq [simp]: "length (height_sq rs) = length rs"
  by (simp add: height_sq_def contours_height_def)

lemma height_sq_nth:
  "i < length rs \<Longrightarrow> height_sq rs ! i = word_of_int ((rect_height (rs ! i))\<^sup>2)"
  by (simp add: height_sq_def contours_height_def)

lemma length_denom [simp]: "length (denom rs) = length rs"
  by (simp add: denom_def)

lemma denom_nth:
  "i + 1 < length rs \<Longrightarrow>
   denom rs ! i = word_of_int ((rect_height (rs ! (i + 1)))\<^sup>2 + (rect_height (rs ! i))\<^sup>2)"
  by (simp add: denom_def np_roll_back_nth height_sq_nth)

lemma length_ratio_for_lower [simp]: "length (ratio_for_lower rs) = length rs - 1"
  by (simp add: ratio_for_lower_def)

lemma ratio_for_lower_nth:
  assumes "i + 1 < length rs"
  shows "ratio_for_lower rs ! i =
     float64_div (float64_of_int (pair_height_sq rs i)) (float64_of_int (pair_denom rs i))"
  using assms
  by (simp add: ratio_for_lower_def nth_butlast denom_nth height_sq_nth pair_height_sq_def
      pair_denom_def wrap_int64_def)

lemma share_defined_squares:
  assumes "share_defined rs i"
  shows "pair_height_sq rs i = (rect_height (rs ! i))\<^sup>2"
    and "pair_denom rs i = (rect_height (rs ! i))\<^sup>2 + (rect_height (rs ! (i + 1)))\<^sup>2"
proof -
  let ?a = "(rect_height (rs ! i))\<^sup>2" and ?b = "(rect_height (rs ! (i + 1)))\<^sup>2"
  have nn: "0 \<le> ?a" "0 \<le> ?b" by simp_all
  from assms have s: "?a + ?b < 2 ^ 63" by (simp add: share_defined_def)
  from nn s have "- (2 ^ 63) \<le> ?a" "?a < 2 ^ 63" by linarith+
  then show "pair_height_sq rs i = ?a" unfolding pair_height_sq_def by (rule wrap_int64_id)
  from nn s have "- (2 ^ 63) \<le> ?b + ?a" "?b + ?a < 2 ^ 63" by linarith+
  then have "wrap_int64 (?b + ?a) = ?b + ?a" by (rule wrap_int64_id)
  then show "pair_denom rs i = ?a + ?b" unfolding pair_denom_def by simp
qed

text \<open>The quotient of two integers in float64 is a fraction when they are.\<close>

lemma float64_div_fraction:
  assumes "0 \<le> a" "a \<le> b" "0 < b"
  shows "\<exists>r. float64_div (float64_of_int a) (float64_of_int b) = Finite r \<and> 0 \<le> r \<and> r \<le> 1"
proof -
  let ?A = "round_float64 (of_int a)" and ?B = "round_float64 (of_int b)"
  have B: "0 < ?B" using assms(3) by (intro round_float64_pos) simp
  have A: "0 \<le> ?A" using assms(1) by (intro round_float64_nonneg) simp
  have AB: "?A \<le> ?B" using assms(2) by (intro round_float64_mono) simp
  from A B AB have q: "0 \<le> ?A / ?B" "?A / ?B \<le> 1" by simp_all
  have "round_float64 0 \<le> round_float64 (?A / ?B)" using q(1) by (rule round_float64_mono)
  moreover have "round_float64 (?A / ?B) \<le> round_float64 1" using q(2) by (rule round_float64_mono)
  moreover have "float64_div (float64_of_int a) (float64_of_int b) = Finite (round_float64 (?A / ?B))"
    using B by (simp add: float64_of_int_def)
  ultimately show ?thesis by simp
qed

lemma ratio_for_lower_range:
  assumes "i + 1 < length rs" "share_defined rs i"
  shows "\<exists>r. ratio_for_lower rs ! i = Finite r \<and> 0 \<le> r \<and> r \<le> 1"
proof -
  let ?a = "(rect_height (rs ! i))\<^sup>2" and ?b = "(rect_height (rs ! (i + 1)))\<^sup>2"
  have "0 \<le> ?a" "?a \<le> ?a + ?b" by simp_all
  moreover from assms(2) have "0 < ?a + ?b" by (simp add: share_defined_def)
  ultimately have
    "\<exists>r. float64_div (float64_of_int ?a) (float64_of_int (?a + ?b)) = Finite r \<and> 0 \<le> r \<and> r \<le> 1"
    by (rule float64_div_fraction)
  then show ?thesis
    by (simp only: ratio_for_lower_nth [OF assms(1)] share_defined_squares [OF assms(2)])
qed

subsection \<open>Truncation toward zero\<close>

lemma astype_int_near: "\<bar>real_of_int (astype_int x) - x\<bar> < 1"
  unfolding astype_int_def by (auto; linarith)

lemma astype_int_minus: "astype_int (- x) = - astype_int x"
  by (auto simp: astype_int_def ceiling_def)

text \<open>
  The product of a fraction and a 32-bit integer, rounded to float64 and truncated,
  lies between zero and the integer, and is the floor of the exact product or one more.
\<close>

lemma product_nonneg_gap:
  assumes r: "0 \<le> r" "r \<le> 1" and g: "0 \<le> g" "g \<le> 2 ^ 31"
  shows "0 \<le> astype_int (round_float64 (r * of_int g)) \<and>
         astype_int (round_float64 (r * of_int g)) \<le> g \<and>
         \<lfloor>r * of_int g\<rfloor> \<le> astype_int (round_float64 (r * of_int g)) \<and>
         astype_int (round_float64 (r * of_int g)) \<le> \<lfloor>r * of_int g\<rfloor> + 1"
proof -
  define x where "x = r * real_of_int g"
  define n where "n = \<lfloor>x\<rfloor>"
  have p: "(2::int) ^ 31 = 2147483648" "(2::int) ^ 53 = 9007199254740992" by simp_all
  have x0: "0 \<le> x" using r g by (simp add: x_def)
  have "x \<le> 1 * real_of_int g" unfolding x_def using r g by (intro mult_right_mono) simp_all
  then have xg: "x \<le> real_of_int g" by simp
  have g53: "\<bar>g\<bar> < 2 ^ 53" using g unfolding p by linarith
  have f0: "0 \<le> round_float64 x" using x0 by (rule round_float64_nonneg)
  have "round_float64 x \<le> round_float64 (of_int g)" using xg by (rule round_float64_mono)
  then have fg: "round_float64 x \<le> of_int g" by (simp only: round_float64_of_int [OF g53])
  have t: "astype_int (round_float64 x) = \<lfloor>round_float64 x\<rfloor>"
    using f0 by (simp add: astype_int_def)
  have n0: "0 \<le> n" using x0 by (simp add: n_def)
  have ng: "n \<le> g" unfolding n_def using xg by linarith
  have n53: "\<bar>n\<bar> < 2 ^ 53" "\<bar>n + 1\<bar> < 2 ^ 53" using n0 ng g unfolding p by linarith+
  have "of_int n \<le> x" by (simp add: n_def)
  then have "round_float64 (of_int n) \<le> round_float64 x" by (rule round_float64_mono)
  then have lo: "of_int n \<le> round_float64 x" by (simp only: round_float64_of_int [OF n53(1)])
  have "x \<le> of_int (n + 1)" unfolding n_def by linarith
  then have "round_float64 x \<le> round_float64 (of_int (n + 1))" by (rule round_float64_mono)
  then have hi: "round_float64 x \<le> of_int (n + 1)"
    by (simp only: round_float64_of_int [OF n53(2)])
  have 1: "0 \<le> \<lfloor>round_float64 x\<rfloor>" using f0 by simp
  have 2: "\<lfloor>round_float64 x\<rfloor> \<le> g" using fg by linarith
  have 3: "n \<le> \<lfloor>round_float64 x\<rfloor>" using lo by (simp add: le_floor_iff)
  have 4: "\<lfloor>round_float64 x\<rfloor> \<le> n + 1" using hi by linarith
  from 1 2 3 4 show ?thesis unfolding t x_def [symmetric] n_def [symmetric] by simp
qed

lemma product_neg_gap:
  assumes r: "0 \<le> r" "r \<le> 1" and g: "g < 0" "- (2 ^ 31) \<le> g"
  shows "g \<le> astype_int (round_float64 (r * of_int g)) \<and>
         astype_int (round_float64 (r * of_int g)) \<le> 0 \<and>
         \<lceil>r * of_int g\<rceil> - 1 \<le> astype_int (round_float64 (r * of_int g)) \<and>
         astype_int (round_float64 (r * of_int g)) \<le> \<lceil>r * of_int g\<rceil>"
proof -
  define x where "x = r * real_of_int g"
  define y where "y = r * real_of_int (- g)"
  have xy: "x = - y" by (simp add: x_def y_def)
  have t: "astype_int (round_float64 x) = - astype_int (round_float64 y)"
    unfolding xy by (simp only: round_float64_minus astype_int_minus)
  have c: "\<lceil>x\<rceil> = - \<lfloor>y\<rfloor>" unfolding xy by (simp add: ceiling_def)
  from g have g': "0 \<le> - g" "- g \<le> 2 ^ 31" by simp_all
  from product_nonneg_gap [OF r g'] show ?thesis
    unfolding x_def [symmetric] y_def [symmetric] t c by linarith
qed

subsection \<open>The increments\<close>

lemma increments_Inr:
  assumes "increments f = Inr (pu, pl)"
  shows "length pu = length (rects f) - 1" "length pl = length (rects f) - 1"
    and "\<And>i. i + 1 < length (rects f) \<Longrightarrow>
           pl ! i = sint (astype_int32 (float64_mul (ratio_for_lower (rects f) ! i)
                                          (float64_of_int (gap (contours f) i))))"
    and "\<And>i. i + 1 < length (rects f) \<Longrightarrow> pu ! i = wrap_int32 (gap (contours f) i - pl ! i)"
proof -
  let ?n = "length (rects f)"
  let ?g = "map (dist_entry (contours f)) [0..<?n - 1]"
  let ?pl = "plus_for_lower_rect (ratio_for_lower (rects f)) ?g"
  from assms obtain ds where ds: "dist_array (get_contours f) ?n = Inr ds"
    by (auto simp: increments_def split: sum.splits)
  then have dg: "ds = ?g" using dist_array_Inr [of "contours f" ?n ds] by (simp add: get_contours_def)
  from assms ds have pl: "pl = map sint ?pl"
    and pu: "pu = map sint (plus_for_upper_rect ?g ?pl)"
    by (auto simp: increments_def dg Let_def)
  have lw: "length ?pl = ?n - 1" by (simp add: plus_for_lower_rect_def)
  show lpl: "length pl = ?n - 1" unfolding pl using lw by simp
  show "length pu = ?n - 1" unfolding pu using lw by (simp add: plus_for_upper_rect_def)
  show l: "pl ! i = sint (astype_int32 (float64_mul (ratio_for_lower (rects f) ! i)
                                          (float64_of_int (gap (contours f) i))))"
    if "i + 1 < ?n" for i
    using that by (simp add: pl plus_for_lower_rect_def gap_def)
  show "pu ! i = wrap_int32 (gap (contours f) i - pl ! i)" if "i + 1 < ?n" for i
  proof -
    from that lw have "pu ! i = sint (dist_entry (contours f) i - ?pl ! i)"
      unfolding pu by (simp add: plus_for_upper_rect_def)
    moreover from that lw have "pl ! i = sint (?pl ! i)" unfolding pl by simp
    ultimately show ?thesis by (simp add: wrap_int32_def gap_def)
  qed
qed

text \<open>
  When the share of a pair is a fraction, the lower rectangle's increment is the float64
  product truncated, and the upper's is the rest of the gap: nothing wraps around.
\<close>

lemma astype_int32_in_range:
  assumes "- (2 ^ 31) \<le> astype_int x" "astype_int x < 2 ^ 31"
  shows "sint (astype_int32 (Finite x)) = astype_int x"
  using assms by (simp add: astype_int32_def sint_int32)

lemma float64_of_gap: "float64_of_int (gap cs i) = Finite (of_int (gap cs i))"
proof -
  have p: "(2::int) ^ 31 = 2147483648" "(2::int) ^ 53 = 9007199254740992" by simp_all
  have "\<bar>gap cs i\<bar> < 2 ^ 53" using gap_range [of cs i] unfolding p by linarith
  then show ?thesis by (simp add: float64_of_int_def round_float64_of_int)
qed

lemma increments_fraction:
  assumes inc: "increments f = Inr (pu, pl)" and i: "i + 1 < length (rects f)"
      and sd: "share_defined (rects f) i"
  shows "\<exists>r. ratio_for_lower (rects f) ! i = Finite r \<and> 0 \<le> r \<and> r \<le> 1 \<and>
             pl ! i = astype_int (round_float64 (r * of_int (gap (contours f) i))) \<and>
             pu ! i = gap (contours f) i - pl ! i \<and>
             (0 \<le> gap (contours f) i \<longrightarrow> 0 \<le> pl ! i \<and> pl ! i \<le> gap (contours f) i) \<and>
             (gap (contours f) i < 0 \<longrightarrow> gap (contours f) i \<le> pl ! i \<and> pl ! i \<le> 0)"
proof -
  define g where "g = gap (contours f) i"
  have p: "(2::int) ^ 31 = 2147483648" by simp
  have gr: "- (2 ^ 31) \<le> g" "g < 2 ^ 31" using gap_range [of "contours f" i] by (simp_all add: g_def)
  from ratio_for_lower_range [OF i sd] obtain r where
    r: "ratio_for_lower (rects f) ! i = Finite r" "0 \<le> r" "r \<le> 1" by blast
  define k where "k = astype_int (round_float64 (r * of_int g))"
  have b: "(0 \<le> g \<longrightarrow> 0 \<le> k \<and> k \<le> g) \<and> (g < 0 \<longrightarrow> g \<le> k \<and> k \<le> 0)"
  proof (cases "0 \<le> g")
    case True
    from gr have "g \<le> 2 ^ 31" by simp
    from product_nonneg_gap [OF r(2,3) True this] have "0 \<le> k \<and> k \<le> g"
      unfolding k_def by blast
    with True show ?thesis by simp
  next
    case False
    then have gn: "g < 0" by simp
    from product_neg_gap [OF r(2,3) gn gr(1)] have "g \<le> k \<and> k \<le> 0"
      unfolding k_def by blast
    with gn show ?thesis by simp
  qed
  from b gr have kr: "- (2 ^ 31) \<le> k" "k < 2 ^ 31" unfolding p by linarith+
  have "float64_mul (ratio_for_lower (rects f) ! i) (float64_of_int g)
          = Finite (round_float64 (r * of_int g))"
    unfolding r(1) g_def float64_of_gap by simp
  then have "pl ! i = sint (astype_int32 (Finite (round_float64 (r * of_int g))))"
    using increments_Inr(3) [OF inc i] by (simp only: g_def)
  also have "\<dots> = k" unfolding k_def using kr unfolding k_def by (rule astype_int32_in_range)
  finally have l: "pl ! i = k" .
  from b gr have "- (2 ^ 31) \<le> g - k" "g - k < 2 ^ 31" unfolding p by linarith+
  then have "wrap_int32 (g - k) = g - k" by (rule wrap_int32_id)
  then have u: "pu ! i = g - pl ! i" using increments_Inr(4) [OF inc i] by (simp only: l g_def)
  have "ratio_for_lower (rects f) ! i = Finite r \<and> 0 \<le> r \<and> r \<le> 1 \<and>
             pl ! i = astype_int (round_float64 (r * of_int g)) \<and>
             pu ! i = g - pl ! i \<and>
             (0 \<le> g \<longrightarrow> 0 \<le> pl ! i \<and> pl ! i \<le> g) \<and>
             (g < 0 \<longrightarrow> g \<le> pl ! i \<and> pl ! i \<le> 0)"
    using r u b unfolding l by (simp add: k_def)
  then show ?thesis unfolding g_def by (rule exI)
qed

lemma increments_nonneg_gap:
  assumes "increments f = Inr (pu, pl)" and "i + 1 < length (rects f)"
      and "share_defined (rects f) i" and g: "0 \<le> gap (contours f) i"
  shows "0 \<le> pl ! i" "pl ! i \<le> gap (contours f) i"
        "0 \<le> pu ! i" "pu ! i \<le> gap (contours f) i"
  using increments_fraction [OF assms(1-3)] g by auto



subsection \<open>The expander in closed form\<close>

lemma expand_rects_closed_form:
  assumes inc: "increments f = Inr (pu, pl)" and n: "2 \<le> length (rects f)"
  shows "expand_rects f =
           (None, f\<lparr>rects := partial_state pu pl (rects f) (length (rects f))\<rparr>)"
proof -
  have "expand_loop (int (length (rects f))) pu pl [0..<length (rects f)] (rects f)
          = (None, partial_state pu pl (rects f) (length (rects f)))"
    using expand_loop_prefix [OF n increments_Inr(1,2) [OF inc], of "length (rects f)"] by simp
  then show ?thesis by (simp add: expand_rects_def inc)
qed

lemma partial_state_full_nth:
  "j < length rs \<Longrightarrow>
   partial_state pu pl rs (length rs) ! j
     = grown (up_amount pu pl j) (down_amount (length rs) pu pl j) (rs ! j)"
  by (simp add: partial_state_def partial_rect_def)

lemma expanded_fields [simp]:
  "length (rects (expanded f pu pl)) = length (rects f)"
  "contours (expanded f pu pl) = contours f"
  "height (expanded f pu pl) = height f"
  "width (expanded f pu pl) = width f"
  by (simp_all add: expanded_def)

lemma expanded_nth:
  "j < length (rects f) \<Longrightarrow>
   rects (expanded f pu pl) ! j =
     grown (up_amount pu pl j) (down_amount (length (rects f)) pu pl j) (rects f ! j)"
  by (simp add: expanded_def partial_state_full_nth)

lemma expanded_moved_up:
  "j < length (rects f) \<Longrightarrow> moved_up f (expanded f pu pl) j = up_amount pu pl j"
  by (simp add: moved_up_def expanded_nth grown_def)

lemma expanded_moved_down:
  "j < length (rects f) \<Longrightarrow>
   moved_down f (expanded f pu pl) j = down_amount (length (rects f)) pu pl j"
  by (simp add: moved_down_def expanded_nth grown_def)

lemma returned_expanded:
  assumes ret: "expand_rects f = (None, f')" and i: "i + 1 < length (rects f)"
  shows "\<exists>pu pl. increments f = Inr (pu, pl) \<and> f' = expanded f pu pl"
proof -
  from ret obtain pu pl where inc: "increments f = Inr (pu, pl)"
    by (auto simp: expand_rects_def split: sum.splits)
  from i have "2 \<le> length (rects f)" by simp
  from expand_rects_closed_form [OF inc this] ret
  have "f' = expanded f pu pl" by (simp add: expanded_def)
  with inc show ?thesis by blast
qed

subsection \<open>The expander on the example frames\<close>

lemmas eval_defs = page_def box_def outline_def increments_def dist_array_def point_diff_def
  np_get_def flatten_points_def denom_def height_sq_def contours_height_def
  rect_height_def np_roll_back_def ratio_for_lower_def plus_for_lower_rect_def
  plus_for_upper_rect_def astype_int_def astype_int32_def float64_of_int_def
  round_float64_def ilog2_def compute_floorlog pow2_def round_half_even_def
  get_contours_def Let_def upt_rec

lemmas frame_defs = page_def box_def outline_def

lemmas closed_defs = page_def box_def partial_state_def partial_rect_def rect_ops upt_rec

lemma increments_two_lines: "increments two_lines = Inr ([6], [1])"
  by (simp add: two_lines_def eval_defs)

lemma expand_two_lines:
  "expand_rects two_lines = (None, page [(4, 26), (26, 48)] [(10, 20), (27, 47)])"
  using expand_rects_closed_form [OF increments_two_lines]
  by (simp add: two_lines_def closed_defs)



lemma increments_lines_near_top: "increments lines_near_top = Inr ([14], [14])"
  by (simp add: lines_near_top_def eval_defs)

lemma expand_lines_near_top:
  "expand_rects lines_near_top = (None, page [(- 12, 26), (26, 64)] [(2, 12), (40, 50)])"
  using expand_rects_closed_form [OF increments_lines_near_top]
  by (simp add: lines_near_top_def closed_defs)

lemma increments_lines_near_bottom: "increments lines_near_bottom = Inr ([14], [14])"
  by (simp add: lines_near_bottom_def eval_defs)

lemma expand_lines_near_bottom:
  "expand_rects lines_near_bottom = (None, page [(36, 74), (74, 112)] [(50, 60), (88, 98)])"
  using expand_rects_closed_form [OF increments_lines_near_bottom]
  by (simp add: lines_near_bottom_def closed_defs)

lemma increments_three_bars: "increments three_bars = Inr ([10, 10], [10, 10])"
  by (simp add: three_bars_def eval_defs)

lemma expand_three_bars:
  "expand_rects three_bars =
     (None, page [(10, 40), (40, 70), (70, 100)] [(20, 30), (50, 60), (80, 90)])"
  using expand_rects_closed_form [OF increments_three_bars]
  by (simp add: three_bars_def closed_defs)

lemma increments_three_bars_again:
  "increments (page [(10, 40), (40, 70), (70, 100)] [(20, 30), (50, 60), (80, 90)])
     = Inr ([10, 10], [10, 10])"
  by (simp add: eval_defs)

lemma expand_three_bars_again:
  "expand_rects (page [(10, 40), (40, 70), (70, 100)] [(20, 30), (50, 60), (80, 90)]) =
     (None, page [(0, 50), (30, 80), (60, 110)] [(20, 30), (50, 60), (80, 90)])"
  using expand_rects_closed_form [OF increments_three_bars_again]
  by (simp add: closed_defs)

text \<open>
  Heights 7 and 6, gap 85: the float64 quotient \<open>49 / 85\<close> times 85 is just below 49,
  and the lower rectangle moves up by 48.
\<close>

lemma increments_uneven_lines: "increments uneven_lines = Inr ([37], [48])"
  by (simp add: uneven_lines_def eval_defs)

lemma expand_uneven_lines:
  "expand_rects uneven_lines = (None, page [(- 37, 44), (44, 146)] [(0, 7), (92, 98)])"
  using expand_rects_closed_form [OF increments_uneven_lines]
  by (simp add: uneven_lines_def closed_defs)

text \<open>
  Two rectangles of height zero: the share is \<open>0 / 0\<close>, NaN, the cast gives
  \<open>- 2\<^sup>3\<^sup>1\<close>, and the difference \<open>10 - (- 2\<^sup>3\<^sup>1)\<close> wraps around.
\<close>

lemma increments_flat_lines: "increments flat_lines = Inr ([- 2147483638], [- 2147483648])"
  by (simp add: flat_lines_def eval_defs)

lemma expand_flat_lines:
  "expand_rects flat_lines =
     (None, page [(2147483648, - 2147483628), (2147483668, - 2147483628)] [(10, 10), (20, 20)])"
  using expand_rects_closed_form [OF increments_flat_lines]
  by (simp add: flat_lines_def closed_defs)



lemma increments_upward_outlines: "increments upward_outlines = Inr ([31], [69])"
  by (simp add: upward_outlines_def eval_defs)

lemma expand_upward_outlines:
  "expand_rects upward_outlines = (None, page [(- 31, 91), (- 9, 169)] [(60, 0), (100, 60)])"
  using expand_rects_closed_form [OF increments_upward_outlines]
  by (simp add: upward_outlines_def closed_defs)

subsection \<open>Inputs in reading order\<close>

lemma non_overlapping_nth:
  assumes "non_overlapping rs" "i + 1 < length rs"
  shows "bottom_edge (rs ! i) \<le> top_edge (rs ! (i + 1))"
proof -
  from assms(1) have "list_all2 (\<lambda>a b. bottom_edge a \<le> top_edge b) (butlast rs) (tl rs)"
    by (simp add: non_overlapping_def)
  moreover have "i < length (butlast rs)" using assms(2) by simp
  ultimately have "bottom_edge (butlast rs ! i) \<le> top_edge (tl rs ! i)"
    by (rule list_all2_nthD)
  then show ?thesis using assms(2) by (simp add: nth_butlast nth_tl)
qed

lemma no_flat_pair_nth:
  assumes "no_flat_pair rs" "i + 1 < length rs"
  shows "0 < (rect_height (rs ! i))\<^sup>2 + (rect_height (rs ! (i + 1)))\<^sup>2"
proof -
  from assms(1) have
    "list_all2 (\<lambda>a b. 0 < (rect_height a)\<^sup>2 + (rect_height b)\<^sup>2) (butlast rs) (tl rs)"
    by (simp add: no_flat_pair_def)
  moreover have "i < length (butlast rs)" using assms(2) by simp
  ultimately have "0 < (rect_height (butlast rs ! i))\<^sup>2 + (rect_height (tl rs ! i))\<^sup>2"
    by (rule list_all2_nthD)
  then show ?thesis using assms(2) by (simp add: nth_butlast nth_tl)
qed

lemma rects_in_frame_nth:
  assumes "rects_in_frame f" "i < length (rects f)"
  shows "in_frame (height f) (width f) (rects f ! i)"
  using assms by (simp add: rects_in_frame_def list_all_length)

lemma edges_on_contours_nth:
  assumes "edges_on_contours f" "i < length (rects f)"
  shows "sint (snd (contours f ! i ! 0)) = top_edge (rects f ! i)"
    and "sint (snd (contours f ! i ! 1)) = bottom_edge (rects f ! i)"
  using assms by (simp_all add: edges_on_contours_def list_all2_conv_all_nth)

text \<open>
  A rectangle in the frame whose edges are coordinates of its contour is less than
  \<open>2\<^sup>3\<^sup>1\<close> rows high.
\<close>

lemma height_on_contour:
  assumes "rects_in_frame f" "edges_on_contours f" "i < length (rects f)"
  shows "0 \<le> rect_height (rects f ! i)" "rect_height (rects f ! i) < 2 ^ 31"
        "0 \<le> top_edge (rects f ! i)" "bottom_edge (rects f ! i) < 2 ^ 31"
proof -
  have fr: "0 \<le> top_edge (rects f ! i)" "top_edge (rects f ! i) \<le> bottom_edge (rects f ! i)"
    using rects_in_frame_nth [OF assms(1,3)] by (simp_all add: in_frame_def)
  have "bottom_edge (rects f ! i) = sint (snd (contours f ! i ! 1))"
    by (rule edges_on_contours_nth(2) [OF assms(2,3), symmetric])
  then have b: "bottom_edge (rects f ! i) < 2 ^ 31"
    using sint_int32_range [of "snd (contours f ! i ! 1)"] by simp
  from fr show "0 \<le> rect_height (rects f ! i)" by (simp add: rect_height_def)
  from fr b show "rect_height (rects f ! i) < 2 ^ 31" by (simp add: rect_height_def)
  from fr show "0 \<le> top_edge (rects f ! i)" by simp
  from b show "bottom_edge (rects f ! i) < 2 ^ 31" .
qed

lemma square_below_2_62:
  assumes "0 \<le> h" "h < 2 ^ 31"
  shows "h\<^sup>2 < (2::int) ^ 62"
proof -
  from assms have "h * h \<le> (2 ^ 31 - 1) * (2 ^ 31 - 1)"
    by (intro mult_mono) simp_all
  then show ?thesis by (simp add: power2_eq_square)
qed

lemma share_defined_in_frame:
  assumes inf: "rects_in_frame f" and edg: "edges_on_contours f"
      and nfp: "no_flat_pair (rects f)" and i: "i + 1 < length (rects f)"
  shows "share_defined (rects f) i"
proof -
  from i have i0: "i < length (rects f)" by simp
  have a: "(rect_height (rects f ! i))\<^sup>2 < 2 ^ 62"
    by (rule square_below_2_62 [OF height_on_contour(1,2) [OF inf edg i0]])
  have b: "(rect_height (rects f ! (i + 1)))\<^sup>2 < 2 ^ 62"
    by (rule square_below_2_62 [OF height_on_contour(1,2) [OF inf edg i]])
  from a b have "(rect_height (rects f ! i))\<^sup>2 + (rect_height (rects f ! (i + 1)))\<^sup>2 < 2 ^ 63"
    by simp
  with no_flat_pair_nth [OF nfp i] show ?thesis by (simp add: share_defined_def)
qed

lemma gap_between_rectangles:
  assumes inf: "rects_in_frame f" and edg: "edges_on_contours f" and i: "i + 1 < length (rects f)"
  shows "gap (contours f) i = top_edge (rects f ! (i + 1)) - bottom_edge (rects f ! i)"
proof -
  from i have i0: "i < length (rects f)" by simp
  let ?t = "top_edge (rects f ! (i + 1))" and ?b = "bottom_edge (rects f ! i)"
  have p: "(2::int) ^ 31 = 2147483648" by simp
  have t: "0 \<le> ?t" "?t < 2 ^ 31"
    using height_on_contour(3,4) [OF inf edg i] rects_in_frame_nth [OF inf i]
    by (simp_all add: in_frame_def)
  have b: "0 \<le> ?b" "?b < 2 ^ 31"
    using height_on_contour(3,4) [OF inf edg i0] rects_in_frame_nth [OF inf i0]
    by (simp_all add: in_frame_def)
  have "gap (contours f) i =
          sint (word_of_int (sint (snd (contours f ! (i + 1) ! 0))) -
                word_of_int (sint (snd (contours f ! i ! 1))) :: int32)"
    by (simp add: gap_def dist_entry_def)
  also have "\<dots> = sint (word_of_int (?t - ?b) :: int32)"
    by (simp only: edges_on_contours_nth(1) [OF edg i] edges_on_contours_nth(2) [OF edg i0]
        of_int_diff)
  also have "\<dots> = ?t - ?b"
  proof (rule sint_int32)
    show "- (2 ^ 31) \<le> ?t - ?b" using t b unfolding p by linarith
    show "?t - ?b < 2 ^ 31" using t b unfolding p by linarith
  qed
  finally show ?thesis .
qed

lemma expand_rects_one:
  assumes r: "rects f = [r]"
  shows "expand_rects f = (Some IndexError, f)"
proof -
  have "increments f = Inr ([], [])"
    by (simp add: increments_def r dist_array_def denom_def height_sq_def
        contours_height_def np_roll_back_def flatten_points_def plus_for_lower_rect_def
        plus_for_upper_rect_def ratio_for_lower_def)
  moreover have "expand_loop 1 [] [] [0] [r] = (Some IndexError, [r])"
    by (simp add: expand_step_def and_then_def call_expand_def np_get_def)
  moreover have "f\<lparr>rects := [r]\<rparr> = f" using r by (cases f) simp
  ultimately show ?thesis by (simp add: expand_rects_def r)
qed

lemma returned_two_or_none:
  assumes ret: "expand_rects f = (None, f')" and i: "i < length (rects f)"
  shows "0 + 1 < length (rects f)"
proof (rule ccontr)
  assume "\<not> 0 + 1 < length (rects f)"
  with i have "length (rects f) = 1" by simp
  then obtain r where "rects f = [r]" by (auto simp: length_Suc_conv)
  from expand_rects_one [OF this] ret show False by simp
qed

lemmas hyp_defs = rects_in_frame_def in_frame_def non_overlapping_def edges_on_contours_def
  no_flat_pair_def share_defined_def rect_height_def

section \<open>The claims about the expander\<close>

text \<open>
  Claim C1. The spec has a set of exactly one rectangle pass through \<^verbatim>\<open>expand_rects\<close>
  unchanged and without an error. In the code both increment arrays are then empty, the
  loop's first iteration takes the branch \<^verbatim>\<open>if i == 0\<close> and reads
  \<^verbatim>\<open>plus_for_upper_rect[0]\<close>: the call raises \<^verbatim>\<open>IndexError\<close> at line 186, before
  any rectangle has been changed.
\<close>

theorem single_rectangle_raises_IndexError:
  assumes "length (rects f) = 1"
  shows "expand_rects f = (Some IndexError, f)"
proof -
  from assms obtain r where "rects f = [r]"
    by (auto simp: length_Suc_conv)
  then show ?thesis by (rule expand_rects_one)
qed

text \<open>The frame \<open>single_line\<close> holds one rectangle.\<close>

theorem single_rectangle_raises_IndexError_witness:
  "length (rects single_line) = 1 \<and> expand_rects single_line = (Some IndexError, single_line)"
  using single_rectangle_raises_IndexError [of single_line]
  by (simp add: single_line_def page_def)

text \<open>
  Claim C2, as the code has it. For an adjacent pair \<open>(i, i + 1)\<close> of a call that
  returns, with the heights \<open>h\<^sub>i\<close> and \<open>h\<^bsub>i+1\<^esub>\<close> read before the expansion and the
  gap \<open>g\<close> read from the contours, the share of the lower rectangle is the float64
  quotient \<open>h\<^sub>i\<^sup>2 / (h\<^sub>i\<^sup>2 + h\<^bsub>i+1\<^esub>\<^sup>2)\<close>, the square of the \<^emph>\<open>upper\<close> rectangle's
  height in the numerator. When the sum of the squares is not zero and fits 64 bits,
  the share is a fraction \<open>r\<close> between 0 and 1, the lower rectangle moves up by the
  float64 product \<open>r * g\<close> truncated toward zero, and the upper rectangle moves down
  by the rest of the gap.
\<close>

theorem lower_share_from_upper_height:
  assumes "expand_rects f = (None, f')" and "i + 1 < length (rects f)"
      and "share_defined (rects f) i"
  shows "\<exists>r. float64_div
                (float64_of_int ((rect_height (rects f ! i))\<^sup>2))
                (float64_of_int ((rect_height (rects f ! i))\<^sup>2 +
                                 (rect_height (rects f ! (i + 1)))\<^sup>2)) = Finite r \<and>
             0 \<le> r \<and> r \<le> 1 \<and>
             moved_up f f' (i + 1) =
               astype_int (round_float64 (r * of_int (gap (contours f) i))) \<and>
             moved_down f f' i = gap (contours f) i - moved_up f f' (i + 1)"
proof -
  from returned_expanded [OF assms(1,2)] obtain pu pl where
    inc: "increments f = Inr (pu, pl)" and f': "f' = expanded f pu pl"
    by blast
  have u: "moved_up f f' (i + 1) = pl ! i"
    using assms(2) by (simp add: f' expanded_moved_up up_amount_def)
  have d: "moved_down f f' i = pu ! i"
    using assms(2) by (simp add: f' expanded_moved_down down_amount_def)
  from increments_fraction [OF inc assms(2,3)] obtain r where
    r: "ratio_for_lower (rects f) ! i = Finite r" "0 \<le> r" "r \<le> 1"
       "pl ! i = astype_int (round_float64 (r * of_int (gap (contours f) i)))"
       "pu ! i = gap (contours f) i - pl ! i"
    by blast
  have "float64_div
          (float64_of_int ((rect_height (rects f ! i))\<^sup>2))
          (float64_of_int ((rect_height (rects f ! i))\<^sup>2 +
                           (rect_height (rects f ! (i + 1)))\<^sup>2)) = Finite r"
    using r(1) unfolding ratio_for_lower_nth [OF assms(2)] share_defined_squares [OF assms(3)] .
  with r(2-5) show ?thesis unfolding u d by blast
qed

text \<open>
  On \<open>uneven_lines\<close>, heights 7 and 6 with a gap of 85, the share \<open>49 / 85\<close> of the
  gap is 49 in exact arithmetic; the float64 quotient is a little less than \<open>49 / 85\<close>,
  its product with 85 is just below 49, and the lower rectangle moves up by 48, the
  upper one down by 37.
\<close>

theorem lower_share_from_upper_height_witness:
  "expand_rects uneven_lines = (None, page [(- 37, 44), (44, 146)] [(0, 7), (92, 98)]) \<and>
   0 + 1 < length (rects uneven_lines) \<and> share_defined (rects uneven_lines) 0 \<and>
   rect_height (rects uneven_lines ! 0) = 7 \<and> rect_height (rects uneven_lines ! (0 + 1)) = 6 \<and>
   gap (contours uneven_lines) 0 = 85 \<and>
   float64_div (float64_of_int (7\<^sup>2)) (float64_of_int (7\<^sup>2 + 6\<^sup>2))
     = Finite (2596192726366521 / 2 ^ 52) \<and>
   (\<exists>r. float64_div
          (float64_of_int ((rect_height (rects uneven_lines ! 0))\<^sup>2))
          (float64_of_int ((rect_height (rects uneven_lines ! 0))\<^sup>2 +
                           (rect_height (rects uneven_lines ! (0 + 1)))\<^sup>2)) = Finite r \<and>
        0 \<le> r \<and> r \<le> 1 \<and>
        moved_up uneven_lines (page [(- 37, 44), (44, 146)] [(0, 7), (92, 98)]) (0 + 1) =
          astype_int (round_float64 (r * of_int (gap (contours uneven_lines) 0))) \<and>
        moved_down uneven_lines (page [(- 37, 44), (44, 146)] [(0, 7), (92, 98)]) 0 =
          gap (contours uneven_lines) 0 -
          moved_up uneven_lines (page [(- 37, 44), (44, 146)] [(0, 7), (92, 98)]) (0 + 1)) \<and>
   moved_up uneven_lines (page [(- 37, 44), (44, 146)] [(0, 7), (92, 98)]) (0 + 1) = 48 \<and>
   moved_down uneven_lines (page [(- 37, 44), (44, 146)] [(0, 7), (92, 98)]) 0 = 37 \<and>
   astype_int (real_of_int (7\<^sup>2) / real_of_int (7\<^sup>2 + 6\<^sup>2) * 85) = 49"
proof -
  have n: "0 + 1 < length (rects uneven_lines)" by (simp add: uneven_lines_def page_def)
  have s: "share_defined (rects uneven_lines) 0"
    by (simp add: uneven_lines_def hyp_defs frame_defs)
  have h: "rect_height (rects uneven_lines ! 0) = 7"
    "rect_height (rects uneven_lines ! (0 + 1)) = 6"
    by (simp_all add: uneven_lines_def rect_height_def frame_defs)
  have g: "gap (contours uneven_lines) 0 = 85"
    by (simp add: uneven_lines_def gap_def dist_entry_def frame_defs)
  have q: "float64_div (float64_of_int (7\<^sup>2)) (float64_of_int (7\<^sup>2 + 6\<^sup>2))
             = Finite (2596192726366521 / 2 ^ 52)"
    by (simp add: float64_of_int_def round_float64_def ilog2_def compute_floorlog pow2_def
        round_half_even_def Let_def)
  have u: "moved_up uneven_lines (page [(- 37, 44), (44, 146)] [(0, 7), (92, 98)]) (0 + 1) = 48"
    by (simp add: uneven_lines_def moved_up_def frame_defs)
  have d: "moved_down uneven_lines (page [(- 37, 44), (44, 146)] [(0, 7), (92, 98)]) 0 = 37"
    by (simp add: uneven_lines_def moved_down_def frame_defs)
  have e: "astype_int (real_of_int (7\<^sup>2) / real_of_int (7\<^sup>2 + 6\<^sup>2) * 85) = 49"
    by (simp add: astype_int_def)
  show ?thesis
    using lower_share_from_upper_height [OF expand_uneven_lines n s] expand_uneven_lines n s h g
      q u d e
    by blast
qed

text \<open>
  Claim C2 as the spec states it fails on \<open>two_lines\<close>, heights 10 and 20 with a gap of
  7: the spec's share \<open>20\<^sup>2 / (10\<^sup>2 + 20\<^sup>2)\<close> of the gap is \<open>28 / 5\<close>, truncated 5,
  and the lower rectangle moves up by 1. On \<open>flat_lines\<close>, two rectangles of height
  zero with a gap of 10, the share is no fraction at all: the quotient is NaN, and the
  lower rectangle moves up by \<open>- 2147483648\<close>. It is NaN on \<open>huge_lines\<close> too,
  where the squares of the heights do not fit 64 bits.
\<close>

theorem spec_lower_share_counterexample:
  "expand_rects two_lines = (None, page [(4, 26), (26, 48)] [(10, 20), (27, 47)]) \<and>
   moved_up two_lines (page [(4, 26), (26, 48)] [(10, 20), (27, 47)]) 1 = 1 \<and>
   spec_ratio_for_lower (rects two_lines) 0 * real_of_int (gap (contours two_lines) 0) = 28 / 5 \<and>
   astype_int (spec_ratio_for_lower (rects two_lines) 0 *
               real_of_int (gap (contours two_lines) 0)) = 5 \<and>
   moved_up two_lines (page [(4, 26), (26, 48)] [(10, 20), (27, 47)]) 1 \<noteq>
     astype_int (spec_ratio_for_lower (rects two_lines) 0 *
                 real_of_int (gap (contours two_lines) 0)) \<and>
   \<not> share_defined (rects flat_lines) 0 \<and> gap (contours flat_lines) 0 = 10 \<and>
   ratio_for_lower (rects flat_lines) ! 0 = NaN \<and>
   expand_rects flat_lines =
     (None, page [(2147483648, - 2147483628), (2147483668, - 2147483628)] [(10, 10), (20, 20)]) \<and>
   moved_up flat_lines
     (page [(2147483648, - 2147483628), (2147483668, - 2147483628)] [(10, 10), (20, 20)]) 1
     = - 2147483648 \<and>
   \<not> share_defined (rects huge_lines) 0 \<and> ratio_for_lower (rects huge_lines) ! 0 = NaN"
proof -
  have f: "\<lfloor>28 / 5 :: real\<rfloor> = 5" by linarith
  have s: "spec_ratio_for_lower (rects two_lines) 0 * real_of_int (gap (contours two_lines) 0) = 28 / 5"
    by (simp add: two_lines_def spec_ratio_for_lower_def rect_height_def gap_def dist_entry_def
        frame_defs)
  have v: "moved_up two_lines (page [(4, 26), (26, 48)] [(10, 20), (27, 47)]) 1 = 1"
    by (simp add: two_lines_def moved_up_def frame_defs)
  have t: "astype_int (spec_ratio_for_lower (rects two_lines) 0 *
               real_of_int (gap (contours two_lines) 0)) = 5"
    unfolding s by (simp add: astype_int_def f)
  have ne: "moved_up two_lines (page [(4, 26), (26, 48)] [(10, 20), (27, 47)]) 1 \<noteq>
     astype_int (spec_ratio_for_lower (rects two_lines) 0 *
                 real_of_int (gap (contours two_lines) 0))"
    unfolding v t by simp
  have a: "\<not> share_defined (rects flat_lines) 0" "gap (contours flat_lines) 0 = 10"
    by (simp_all add: flat_lines_def hyp_defs gap_def dist_entry_def frame_defs)
  have b: "ratio_for_lower (rects flat_lines) ! 0 = NaN"
    by (simp add: flat_lines_def eval_defs)
  have c: "moved_up flat_lines
     (page [(2147483648, - 2147483628), (2147483668, - 2147483628)] [(10, 10), (20, 20)]) 1
     = - 2147483648"
    by (simp add: flat_lines_def moved_up_def frame_defs)
  have h: "\<not> share_defined (rects huge_lines) 0" "ratio_for_lower (rects huge_lines) ! 0 = NaN"
    by (simp_all add: huge_lines_def hyp_defs eval_defs)
  from expand_two_lines v s t ne a b c h expand_flat_lines show ?thesis by blast
qed







text \<open>
  Claim C6, as the code has it. On a set in reading order without overlap, whose
  rectangles lie in the frame and carry their top and bottom edge in the first two
  points of their contours, no two adjacent rectangles both of height zero, a call
  that returns leaves every rectangle with its top not below its bottom and with its
  left and right edge as they were; every top edge but the first rectangle's and every
  bottom edge but the last rectangle's stays within \<open>[0, height]\<close>. Nothing confines
  the first rectangle's top and the last rectangle's bottom to the frame: lines 185 to
  188 move them out by the neighbouring increment.
\<close>

theorem expanded_rectangles_in_frame_but_ends:
  assumes ret: "expand_rects f = (None, f')"
      and inf: "rects_in_frame f" and nov: "non_overlapping (rects f)"
      and edg: "edges_on_contours f" and nfp: "no_flat_pair (rects f)"
      and i: "i < length (rects f)"
  shows "top_edge (rects f' ! i) \<le> bottom_edge (rects f' ! i) \<and>
         left_edge (rects f' ! i) = left_edge (rects f ! i) \<and>
         right_edge (rects f' ! i) = right_edge (rects f ! i) \<and>
         0 \<le> left_edge (rects f' ! i) \<and> right_edge (rects f' ! i) \<le> int (width f') \<and>
         top_edge (rects f' ! i) \<le> int (height f') \<and> 0 \<le> bottom_edge (rects f' ! i) \<and>
         (0 < i \<longrightarrow> 0 \<le> top_edge (rects f' ! i)) \<and>
         (i + 1 < length (rects f) \<longrightarrow> bottom_edge (rects f' ! i) \<le> int (height f'))"
proof -
  let ?n = "length (rects f)"
  have two: "0 + 1 < ?n" by (rule returned_two_or_none [OF ret i])
  from returned_expanded [OF ret two] obtain pu pl where
    inc: "increments f = Inr (pu, pl)" and f': "f' = expanded f pu pl"
    by blast
  have gr: "gap (contours f) j = top_edge (rects f ! (j + 1)) - bottom_edge (rects f ! j)"
    if "j + 1 < ?n" for j
    by (rule gap_between_rectangles [OF inf edg that])
  have gp: "0 \<le> gap (contours f) j" if "j + 1 < ?n" for j
    using gr [OF that] non_overlapping_nth [OF nov that] by simp
  have sd: "share_defined (rects f) j" if "j + 1 < ?n" for j
    by (rule share_defined_in_frame [OF inf edg nfp that])
  have fr: "in_frame (height f) (width f) (rects f ! j)" if "j < ?n" for j
    by (rule rects_in_frame_nth [OF inf that])
  have r': "rects (expanded f pu pl) ! i =
              grown (up_amount pu pl i) (down_amount ?n pu pl i) (rects f ! i)"
    by (rule expanded_nth [OF i])
  have up0: "0 \<le> up_amount pu pl i"
  proof (cases "i = 0")
    case True
    then show ?thesis
      using increments_nonneg_gap(3) [OF inc two sd [OF two] gp [OF two]]
      by (simp add: up_amount_def)
  next
    case False
    then have j: "(i - 1) + 1 < ?n" using i by simp
    from False show ?thesis
      using increments_nonneg_gap(1) [OF inc j sd [OF j] gp [OF j]] by (simp add: up_amount_def)
  qed
  have down0: "0 \<le> down_amount ?n pu pl i"
  proof (cases "i + 1 < ?n")
    case True
    then show ?thesis
      using increments_nonneg_gap(3) [OF inc True sd [OF True] gp [OF True]]
      by (simp add: down_amount_def)
  next
    case False
    have j: "(?n - 2) + 1 < ?n" using two by simp
    from False show ?thesis
      using increments_nonneg_gap(1) [OF inc j sd [OF j] gp [OF j]] by (simp add: down_amount_def)
  qed
  have top_lo: "0 \<le> top_edge (rects f' ! i)" if "0 < i"
  proof -
    from that i have j: "(i - 1) + 1 < ?n" and ii: "i - 1 + 1 = i" by simp_all
    have "pl ! (i - 1) \<le> gap (contours f) (i - 1)"
      by (rule increments_nonneg_gap(2) [OF inc j sd [OF j] gp [OF j]])
    also have "\<dots> = top_edge (rects f ! i) - bottom_edge (rects f ! (i - 1))"
      using gr [OF j] ii by simp
    finally have "bottom_edge (rects f ! (i - 1)) \<le> top_edge (rects f ! i) - pl ! (i - 1)"
      by simp
    moreover have "0 \<le> bottom_edge (rects f ! (i - 1))"
      using fr [of "i - 1"] j by (simp add: in_frame_def)
    ultimately show ?thesis
      using that by (simp add: f' r' grown_def up_amount_def)
  qed
  have bot_hi: "bottom_edge (rects f' ! i) \<le> int (height f')" if "i + 1 < ?n"
  proof -
    have "pu ! i \<le> gap (contours f) i"
      by (rule increments_nonneg_gap(4) [OF inc that sd [OF that] gp [OF that]])
    also have "\<dots> = top_edge (rects f ! (i + 1)) - bottom_edge (rects f ! i)"
      by (rule gr [OF that])
    finally have "bottom_edge (rects f ! i) + pu ! i \<le> top_edge (rects f ! (i + 1))"
      by simp
    moreover have "top_edge (rects f ! (i + 1)) \<le> int (height f)"
      using fr [OF that] by (simp add: in_frame_def)
    ultimately show ?thesis
      using that by (simp add: r' f' grown_def down_amount_def)
  qed
  from fr [OF i] up0 down0 have
    "top_edge (rects f' ! i) \<le> bottom_edge (rects f' ! i)"
    "left_edge (rects f' ! i) = left_edge (rects f ! i)"
    "right_edge (rects f' ! i) = right_edge (rects f ! i)"
    "0 \<le> left_edge (rects f' ! i)" "right_edge (rects f' ! i) \<le> int (width f')"
    "top_edge (rects f' ! i) \<le> int (height f')" "0 \<le> bottom_edge (rects f' ! i)"
    by (simp_all add: r' f' grown_def in_frame_def)
  with top_lo bot_hi show ?thesis by blast
qed

theorem expanded_rectangles_in_frame_but_ends_witness:
  "expand_rects three_bars =
     (None, page [(10, 40), (40, 70), (70, 100)] [(20, 30), (50, 60), (80, 90)]) \<and>
   rects_in_frame three_bars \<and> non_overlapping (rects three_bars) \<and>
   edges_on_contours three_bars \<and> no_flat_pair (rects three_bars) \<and>
   1 < length (rects three_bars) \<and>
   rects (page [(10, 40), (40, 70), (70, 100)] [(20, 30), (50, 60), (80, 90)]) ! 1 = box 40 70 \<and>
   top_edge (box 40 70) \<le> bottom_edge (box 40 70) \<and>
   0 \<le> top_edge (box 40 70) \<and> bottom_edge (box 40 70) \<le> int (height three_bars)"
proof -
  have h: "rects_in_frame three_bars" "non_overlapping (rects three_bars)"
    "edges_on_contours three_bars" "no_flat_pair (rects three_bars)"
    "1 < length (rects three_bars)"
    by (simp_all add: three_bars_def hyp_defs frame_defs)
  have v: "rects (page [(10, 40), (40, 70), (70, 100)] [(20, 30), (50, 60), (80, 90)]) ! 1
             = box 40 70"
    by (simp add: page_def)
  have b: "height (page [(10, 40), (40, 70), (70, 100)] [(20, 30), (50, 60), (80, 90)])
             = height three_bars"
    by (simp add: three_bars_def page_def)
  have n: "1 + 1 < length (rects three_bars)"
    by (simp add: three_bars_def page_def)
  show ?thesis
    using expanded_rectangles_in_frame_but_ends [OF expand_three_bars h]
      expand_three_bars h n
    unfolding v b by simp
qed

text \<open>
  Claim C6 as the spec states it fails on \<open>lines_near_top\<close>, where the first
  rectangle's top moves from row 2 to row \<open>- 12\<close>, and on \<open>lines_near_bottom\<close>, where
  the last rectangle's bottom moves from row 98 to row 112 of a page of 100 rows. It
  fails on \<open>flat_lines\<close>, two rectangles of height zero in the frame, in reading order
  and with their edges on their contours: the call returns with the top of each far
  below its bottom. And it fails on \<open>upward_outlines\<close>, two rectangles in the frame
  and in reading order whose contours start at the bottom row: the gap read from the
  contours is 100 rows, and the second rectangle's top moves from row 60 to row
  \<open>- 9\<close>.
\<close>

theorem frame_bounds_counterexample:
  "rects_in_frame lines_near_top \<and> non_overlapping (rects lines_near_top) \<and>
   edges_on_contours lines_near_top \<and> no_flat_pair (rects lines_near_top) \<and>
   expand_rects lines_near_top = (None, page [(- 12, 26), (26, 64)] [(2, 12), (40, 50)]) \<and>
   top_edge (rects (page [(- 12, 26), (26, 64)] [(2, 12), (40, 50)]) ! 0) = - 12 \<and>
   \<not> rects_in_frame (page [(- 12, 26), (26, 64)] [(2, 12), (40, 50)]) \<and>
   rects_in_frame lines_near_bottom \<and> non_overlapping (rects lines_near_bottom) \<and>
   edges_on_contours lines_near_bottom \<and> no_flat_pair (rects lines_near_bottom) \<and>
   expand_rects lines_near_bottom = (None, page [(36, 74), (74, 112)] [(50, 60), (88, 98)]) \<and>
   bottom_edge (rects (page [(36, 74), (74, 112)] [(50, 60), (88, 98)]) ! 1) = 112 \<and>
   height (page [(36, 74), (74, 112)] [(50, 60), (88, 98)]) = 100 \<and>
   \<not> rects_in_frame (page [(36, 74), (74, 112)] [(50, 60), (88, 98)]) \<and>
   rects_in_frame flat_lines \<and> non_overlapping (rects flat_lines) \<and>
   edges_on_contours flat_lines \<and> \<not> no_flat_pair (rects flat_lines) \<and>
   expand_rects flat_lines =
     (None, page [(2147483648, - 2147483628), (2147483668, - 2147483628)] [(10, 10), (20, 20)]) \<and>
   bottom_edge (rects (page [(2147483648, - 2147483628), (2147483668, - 2147483628)]
                         [(10, 10), (20, 20)]) ! 0)
     < top_edge (rects (page [(2147483648, - 2147483628), (2147483668, - 2147483628)]
                          [(10, 10), (20, 20)]) ! 0) \<and>
   rects_in_frame upward_outlines \<and> non_overlapping (rects upward_outlines) \<and>
   no_flat_pair (rects upward_outlines) \<and> \<not> edges_on_contours upward_outlines \<and>
   rects upward_outlines = map bounding_rect (contours upward_outlines) \<and>
   expand_rects upward_outlines = (None, page [(- 31, 91), (- 9, 169)] [(60, 0), (100, 60)]) \<and>
   top_edge (rects (page [(- 31, 91), (- 9, 169)] [(60, 0), (100, 60)]) ! 1) = - 9"
proof -
  have "rects_in_frame lines_near_top" "non_overlapping (rects lines_near_top)"
    "edges_on_contours lines_near_top" "no_flat_pair (rects lines_near_top)"
    "rects_in_frame lines_near_bottom" "non_overlapping (rects lines_near_bottom)"
    "edges_on_contours lines_near_bottom" "no_flat_pair (rects lines_near_bottom)"
    by (simp_all add: lines_near_top_def lines_near_bottom_def hyp_defs frame_defs)
  moreover have "top_edge (rects (page [(- 12, 26), (26, 64)] [(2, 12), (40, 50)]) ! 0) = - 12"
    "\<not> rects_in_frame (page [(- 12, 26), (26, 64)] [(2, 12), (40, 50)])"
    "bottom_edge (rects (page [(36, 74), (74, 112)] [(50, 60), (88, 98)]) ! 1) = 112"
    "height (page [(36, 74), (74, 112)] [(50, 60), (88, 98)]) = 100"
    "\<not> rects_in_frame (page [(36, 74), (74, 112)] [(50, 60), (88, 98)])"
    by (simp_all add: hyp_defs frame_defs)
  moreover have "rects_in_frame flat_lines" "non_overlapping (rects flat_lines)"
    "edges_on_contours flat_lines" "\<not> no_flat_pair (rects flat_lines)"
    by (simp_all add: flat_lines_def hyp_defs frame_defs)
  moreover have
    "bottom_edge (rects (page [(2147483648, - 2147483628), (2147483668, - 2147483628)]
                         [(10, 10), (20, 20)]) ! 0)
     < top_edge (rects (page [(2147483648, - 2147483628), (2147483668, - 2147483628)]
                          [(10, 10), (20, 20)]) ! 0)"
    by (simp add: frame_defs)
  moreover have "rects_in_frame upward_outlines" "non_overlapping (rects upward_outlines)"
    "no_flat_pair (rects upward_outlines)" "\<not> edges_on_contours upward_outlines"
    by (simp_all add: upward_outlines_def hyp_defs frame_defs)
  moreover have "rects upward_outlines = map bounding_rect (contours upward_outlines)"
    by (simp add: upward_outlines_def bounding_rect_def frame_defs)
  moreover have
    "top_edge (rects (page [(- 31, 91), (- 9, 169)] [(60, 0), (100, 60)]) ! 1) = - 9"
    by (simp add: frame_defs)
  ultimately show ?thesis
    using expand_lines_near_top expand_lines_near_bottom expand_flat_lines
      expand_upward_outlines
    by blast
qed

section \<open>Drawing twice\<close>

text \<open>
  Claim C9. \<^verbatim>\<open>get_processed_img\<close> expands on every call. On \<open>three_bars\<close>, three
  rectangles with gaps of 20 rows, a second call moves every edge by a further 10 rows:
  the rectangles after two calls differ from those after one, as they do when the first
  expansion was an explicit \<^verbatim>\<open>expand_rects\<close>.
\<close>

theorem get_processed_img_not_idempotent:
  "2 \<le> length (rects three_bars) \<and> 0 < gap (contours three_bars) 0 \<and>
   expand_rects three_bars =
     (None, page [(10, 40), (40, 70), (70, 100)] [(20, 30), (50, 60), (80, 90)]) \<and>
   get_processed_img three_bars =
     (None, contours three_bars,
      page [(10, 40), (40, 70), (70, 100)] [(20, 30), (50, 60), (80, 90)]) \<and>
   get_processed_img (page [(10, 40), (40, 70), (70, 100)] [(20, 30), (50, 60), (80, 90)]) =
     (None, contours three_bars,
      page [(0, 50), (30, 80), (60, 110)] [(20, 30), (50, 60), (80, 90)]) \<and>
   rects (page [(0, 50), (30, 80), (60, 110)] [(20, 30), (50, 60), (80, 90)]) \<noteq>
   rects (page [(10, 40), (40, 70), (70, 100)] [(20, 30), (50, 60), (80, 90)])"
proof -
  have "2 \<le> length (rects three_bars)" "0 < gap (contours three_bars) 0"
    by (simp_all add: three_bars_def gap_def dist_entry_def frame_defs)
  moreover have "get_processed_img three_bars =
     (None, contours three_bars,
      page [(10, 40), (40, 70), (70, 100)] [(20, 30), (50, 60), (80, 90)])"
    unfolding get_processed_img_def expand_three_bars
    by (simp add: draw_contours_def get_contours_def three_bars_def page_def)
  moreover have
    "get_processed_img (page [(10, 40), (40, 70), (70, 100)] [(20, 30), (50, 60), (80, 90)]) =
     (None, contours three_bars,
      page [(0, 50), (30, 80), (60, 110)] [(20, 30), (50, 60), (80, 90)])"
    unfolding get_processed_img_def expand_three_bars_again
    by (simp add: draw_contours_def get_contours_def three_bars_def page_def)
  moreover have "rects (page [(0, 50), (30, 80), (60, 110)] [(20, 30), (50, 60), (80, 90)]) \<noteq>
   rects (page [(10, 40), (40, 70), (70, 100)] [(20, 30), (50, 60), (80, 90)])"
    by (simp add: frame_defs)
  ultimately show ?thesis using expand_three_bars by blast
qed

section \<open>Constructing a frame\<close>

text \<open>
  Claim C3. The spec has the construction succeed on every image that passes the shape
  and type checks. A two-dimensional image of unsigned 8-bit samples passes
  \<^verbatim>\<open>__check_rgb_img\<close>, and the next statement, the conversion from BGR to gray,
  raises on it, whatever the detection would find.
\<close>

theorem grayscale_image_passes_check_and_fails:
  "check_rgb_img \<lparr>img_dtype = UInt8, img_shape = [100, 300]\<rparr> = Inr True \<and>
   Frame_init find_contours \<lparr>img_dtype = UInt8, img_shape = [100, 300]\<rparr> = Inl Cv2Error"
  by (simp add: Frame_init_def check_rgb_img_def issubdtype_def Pixel_dtype_def
      cvtColor_BGR2GRAY_def)

text \<open>
  The other half of the spec's sentence holds: the assertion passes exactly on the valid
  images, and on any other image the constructor stops there.
\<close>

lemma check_rgb_img_valid: "check_rgb_img im = Inr True \<longleftrightarrow> valid_image im"
  by (auto simp: check_rgb_img_def valid_image_def issubdtype_def Pixel_dtype_def)

lemma invalid_image_rejected:
  "\<not> valid_image im \<Longrightarrow> Frame_init find_contours im = Inl AssertionError"
  by (auto simp: Frame_init_def check_rgb_img_def valid_image_def issubdtype_def Pixel_dtype_def)

lemma invalid_image_rejected_example:
  "\<not> valid_image \<lparr>img_dtype = UInt8, img_shape = [100, 300, 4]\<rparr> \<and>
   Frame_init find_contours \<lparr>img_dtype = UInt8, img_shape = [100, 300, 4]\<rparr> = Inl AssertionError"
  using invalid_image_rejected [of "\<lparr>img_dtype = UInt8, img_shape = [100, 300, 4]\<rparr>" find_contours]
  by (simp add: valid_image_def)

text \<open>
  Claim C10. A frame that the constructor returns holds its rectangles ordered by their
  top edge, each the bounding box of the contour at the same index: the order that
  \<^verbatim>\<open>expand_rects\<close> assumes holds with no further call.
\<close>

theorem fresh_frame_is_sorted:
  assumes "Frame_init find_contours im = Inr f"
  shows "sorted (map top_edge (rects f)) \<and> length (contours f) = length (rects f) \<and>
         rects f = map bounding_rect (contours f)"
proof -
  from assms obtain gray con where
    "find_contours gray = Inr con"
    and f: "rects f = fst (Rects_sorted con)" "contours f = snd (Rects_sorted con)"
    by (auto simp: Frame_init_def find_rects_def np_array_of_contours_def
        split: sum.splits if_splits prod.splits)
  let ?es = "sort_key (\<lambda>e. top_edge (fst e)) (map (\<lambda>c. (bounding_rect c, c)) con)"
  have rs: "rects f = map fst ?es" and cs: "contours f = map snd ?es"
    by (simp_all add: f Rects_sorted_def Let_def)
  have "sorted (map (\<lambda>e. top_edge (fst e)) ?es)" by (rule sorted_sort_key)
  then have 1: "sorted (map top_edge (rects f))" by (simp add: rs comp_def)
  have "\<forall>e \<in> set ?es. fst e = bounding_rect (snd e)" by auto
  then have 2: "rects f = map bounding_rect (contours f)" by (simp add: rs cs)
  from 1 2 show ?thesis by (simp add: rs cs)
qed

theorem fresh_frame_is_sorted_witness:
  "Frame_init (\<lambda>g. Inr [outline 50 60, outline 20 30])
       \<lparr>img_dtype = UInt8, img_shape = [100, 300, 3]\<rparr>
     = Inr (page [(20, 30), (50, 60)] [(20, 30), (50, 60)]) \<and>
   sorted (map top_edge (rects (page [(20, 30), (50, 60)] [(20, 30), (50, 60)]))) \<and>
   map top_edge (rects (page [(20, 30), (50, 60)] [(20, 30), (50, 60)])) = [20, 50]"
proof -
  have e: "Frame_init (\<lambda>g. Inr [outline 50 60, outline 20 30])
       \<lparr>img_dtype = UInt8, img_shape = [100, 300, 3]\<rparr>
     = Inr (page [(20, 30), (50, 60)] [(20, 30), (50, 60)])"
    by (simp add: Frame_init_def check_rgb_img_def issubdtype_def Pixel_dtype_def
        cvtColor_BGR2GRAY_def find_rects_def np_array_of_contours_def Rects_sorted_def
        bounding_rect_def frame_defs)
  have v: "map top_edge (rects (page [(20, 30), (50, 60)] [(20, 30), (50, 60)])) = [20, 50]"
    by (simp add: frame_defs)
  show ?thesis
    using fresh_frame_is_sorted [OF e] e v by blast
qed

end
